theory Spec2Isabelle
  imports Main "HOL-Library.Word" "HOL-Library.Sublist" "HOL-Library.AList"
begin

section \<open>The iterative resolver of custom\_dns.py\<close>

subsection \<open>Data\<close>

text \<open>
  Wire buffers are byte strings. The resolver never looks inside them: it hands them to
  the socket and to the library's parser.
\<close>

type_synonym bytes = "8 word list"

text \<open>
  A resource record as the resolver reads it from the parsed reply: \<open>rname\<close> and
  \<open>rdata\<close> are the texts that \<^verbatim>\<open>str(record.rname)\<close> and \<^verbatim>\<open>str(record.rdata)\<close> give,
  \<open>rtype\<close> is the numeric record type (1 is an address record, 2 a name-server record).
\<close>

record resource_record =
  rname :: string
  rtype :: nat
  rdata :: string

text \<open>
  A parsed message: \<open>qname\<close> is \<^verbatim>\<open>str(msg.q.qname)\<close>, \<open>rr\<close> the answer section,
  \<open>auth\<close> the authority section and \<open>ar\<close> the additional section.
\<close>

record dns_record =
  qname :: string
  rr :: "resource_record list"
  auth :: "resource_record list"
  ar :: "resource_record list"

text \<open>
  One dictionary of \<^verbatim>\<open>trace_info\<close>. The round-trip time is kept in hundredths of a
  millisecond, the precision \<^verbatim>\<open>round(response_time, 2)\<close> leaves; \<open>None\<close> is Python's
  \<^verbatim>\<open>None\<close>.
\<close>

record trace_entry =
  step :: nat
  mode :: string
  stage :: string
  server :: string
  rtt :: "int option"
  response :: "string list"

text \<open>
  What one \<^verbatim>\<open>sendto\<close>/\<^verbatim>\<open>recvfrom\<close> exchange on a fresh socket with a two second
  timeout can do: deliver a datagram (with the measured, rounded round-trip time), raise
  \<^verbatim>\<open>socket.timeout\<close>, or raise another socket error.
\<close>

datatype send_result = Reply bytes int | TimedOut | SocketFailure

text \<open>The exceptions that leave \<^verbatim>\<open>hierarchical_lookup\<close>.\<close>

datatype lookup_error = DNSError | DNSLabelError | OSError

text \<open>
  Everything outside the resolver: the network, which answers an exchange from its current
  state \<open>'s\<close> and moves to a new state, so that a server may answer differently each time
  it is asked; \<^verbatim>\<open>DNSRecord.parse\<close>, which raises on a buffer it cannot decode (\<open>None\<close>);
  and \<^verbatim>\<open>bytes(DNSRecord.question(name).pack())\<close>, which raises on a name it cannot
  encode (\<open>None\<close>).
\<close>

record 's world =
  exchange :: "'s \<Rightarrow> string \<Rightarrow> bytes \<Rightarrow> send_result \<times> 's"
  parse :: "bytes \<Rightarrow> dns_record option"
  question :: "string \<Rightarrow> bytes option"

definition NAME_SERVERS :: "string list" where
  "NAME_SERVERS = [''198.41.0.4'', ''199.9.14.201'', ''192.33.4.12'']"

subsection \<open>Building trace entries\<close>

fun digit_char :: "nat \<Rightarrow> char" where
  "digit_char n = char_of (48 + n)"

fun show_nat :: "nat \<Rightarrow> string" where
  "show_nat n = (if n < 10 then [digit_char n] else show_nat (n div 10) @ [digit_char (n mod 10)])"

declare show_nat.simps [simp del]

text \<open>The entry appended when a server does not answer in time (lines 56 to 63).\<close>

definition timeout_entry :: "nat \<Rightarrow> string \<Rightarrow> trace_entry" where
  "timeout_entry lookup_step name_server =
     \<lparr>step = lookup_step, mode = ''Iterative'', stage = ''Timeout'', server = name_server,
      rtt = None, response = [''No response (timeout)'']\<rparr>"

text \<open>The resolution phase of a decoded reply (lines 72 to 77).\<close>

definition phase :: "nat \<Rightarrow> dns_record \<Rightarrow> string" where
  "phase lookup_step parsed_reply =
     (if lookup_step = 1 then ''Root''
      else if length (auth parsed_reply) > 0 \<and> rr parsed_reply = [] then ''TLD''
      else ''Authoritative'')"

text \<open>The description of a reply (lines 80 to 86).\<close>

definition record_line :: "resource_record \<Rightarrow> string" where
  "record_line r = rname r @ '' -> '' @ show_nat (rtype r) @ '' -> '' @ rdata r"

definition reply_summary :: "dns_record \<Rightarrow> string list" where
  "reply_summary parsed_reply =
     (let available_records =
            (if rr parsed_reply \<noteq> [] then rr parsed_reply else auth parsed_reply)
      in if available_records \<noteq> [] then map record_line available_records
         else [''Referral or empty response''])"

text \<open>The entry appended for a decoded reply (lines 88 to 95).\<close>

definition reply_entry :: "nat \<Rightarrow> string \<Rightarrow> int \<Rightarrow> dns_record \<Rightarrow> trace_entry" where
  "reply_entry lookup_step contacted_server response_time parsed_reply =
     \<lparr>step = lookup_step, mode = ''Iterative'', stage = phase lookup_step parsed_reply,
      server = contacted_server, rtt = Some response_time,
      response = reply_summary parsed_reply\<rparr>"

subsection \<open>The resolver\<close>

text \<open>
  The \<^verbatim>\<open>for name_server in active_servers\<close> loop (lines 43 to 63): the servers are asked in
  order; a timeout appends an entry and goes on, the first datagram ends the loop, any
  other socket error leaves the function as an exception. The result is the reply with
  the server that sent it (or \<open>None\<close> when \<^verbatim>\<open>received_reply\<close> stays false), the trace and
  the network's state.
\<close>

fun query_servers ::
  "'s world \<Rightarrow> 's \<Rightarrow> bytes \<Rightarrow> nat \<Rightarrow> string list \<Rightarrow> trace_entry list \<Rightarrow>
   lookup_error + ((string \<times> bytes \<times> int) option \<times> trace_entry list \<times> 's)" where
  "query_servers w s request_bytes lookup_step [] trace_info = Inr (None, trace_info, s)"
| "query_servers w s request_bytes lookup_step (name_server # rest) trace_info =
     (case exchange w s name_server request_bytes of
        (Reply reply_data response_time, s') \<Rightarrow>
          Inr (Some (name_server, reply_data, response_time), trace_info, s')
      | (TimedOut, s') \<Rightarrow>
          query_servers w s' request_bytes lookup_step rest
            (trace_info @ [timeout_entry lookup_step name_server])
      | (SocketFailure, s') \<Rightarrow> Inl OSError)"

text \<open>Lines 103 and 107: the glue addresses and the delegated server names of a reply.\<close>

definition glue_ips :: "dns_record \<Rightarrow> string list" where
  "glue_ips parsed_reply = map rdata (filter (\<lambda>r. rtype r = 1) (ar parsed_reply))"

definition ns_names :: "dns_record \<Rightarrow> string list" where
  "ns_names parsed_reply = map rdata (filter (\<lambda>r. rtype r = 2) (auth parsed_reply))"

text \<open>Lines 116 to 120: the addresses in the answer of a nested lookup.\<close>

definition answer_ips :: "dns_record \<Rightarrow> string list" where
  "answer_ips ns_parsed = map rdata (filter (\<lambda>r. rtype r = 1) (rr ns_parsed))"

text \<open>
  One pass through the body of the \<^verbatim>\<open>while True\<close> loop, from the server loop to the
  choice of the next servers (lines 43 to 109), with \<^verbatim>\<open>lookup_step\<close> already incremented.
  It ends in one of four ways:
  \<^item> \<open>Raised\<close>: an exception leaves the function (a socket error, or a reply that
    \<^verbatim>\<open>DNSRecord.parse\<close> cannot decode: line 69 is not inside a \<^verbatim>\<open>try\<close>);
  \<^item> \<open>Finished\<close>: a \<^verbatim>\<open>break\<close> leaves the loop with this \<^verbatim>\<open>final_response\<close>
    (no server replied; or the reply has answer records; or it has neither glue nor
    name-server records);
  \<^item> \<open>Glue\<close>: the reply carries address records in its additional section, which are
    the next servers;
  \<^item> \<open>Names\<close>: it carries none, and the names of its name-server records have to be
    looked up first.
\<close>

datatype 's hop =
    Raised lookup_error
  | Finished "bytes option" "trace_entry list" 's
  | Glue "string list" "trace_entry list" 's
  | Names "string list" "trace_entry list" 's

definition one_hop ::
  "'s world \<Rightarrow> 's \<Rightarrow> bytes \<Rightarrow> nat \<Rightarrow> string list \<Rightarrow> trace_entry list \<Rightarrow> 's hop" where
  "one_hop w s request_bytes lookup_step active_servers trace_info =
     (case query_servers w s request_bytes lookup_step active_servers trace_info of
        Inl e \<Rightarrow> Raised e
      | Inr (None, trace1, s1) \<Rightarrow> Finished None trace1 s1
      | Inr (Some (contacted_server, reply_data, response_time), trace1, s1) \<Rightarrow>
          (case parse w reply_data of
             None \<Rightarrow> Raised DNSError
           | Some parsed_reply \<Rightarrow>
               (let trace2 = trace1 @ [reply_entry lookup_step contacted_server
                                         response_time parsed_reply]
                in if rr parsed_reply \<noteq> [] then Finished (Some reply_data) trace2 s1
                   else if glue_ips parsed_reply \<noteq> []
                     then Glue (glue_ips parsed_reply) trace2 s1
                   else if ns_names parsed_reply = [] then Finished None trace2 s1
                   else Names (ns_names parsed_reply) trace2 s1)))"

text \<open>
  Lines 116 to 120: what the reply of a nested lookup adds to \<^verbatim>\<open>next_server_ips\<close>.
  The test \<^verbatim>\<open>if ns_response\<close> fails for \<^verbatim>\<open>None\<close>, the result of a nested lookup that
  failed, and for an empty buffer; then nothing is added.
\<close>

definition collect ::
  "'s world \<Rightarrow> bytes option \<Rightarrow> string list \<Rightarrow> lookup_error + string list" where
  "collect w ns_response next_server_ips =
     (case ns_response of
        None \<Rightarrow> Inr next_server_ips
      | Some ns_bytes \<Rightarrow>
          if ns_bytes = [] then Inr next_server_ips
          else
            (case parse w ns_bytes of
               None \<Rightarrow> Inl DNSError
             | Some ns_parsed \<Rightarrow> Inr (next_server_ips @ answer_ips ns_parsed)))"

text \<open>
  The function itself. The \<^verbatim>\<open>while True\<close> loop has no bound in the source, so the model
  carries fuel: the first argument bounds the number of loop iterations along any chain of
  iterations and nested calls, and the value \<open>None\<close> says that the fuel ran out before the
  function returned. A returned value is \<open>Inl\<close> of the exception that left the function,
  or \<open>Inr\<close> of the returned tuple (with the network's state in place of the elapsed time,
  which is a reading of the wall clock). The interpreter's limits are not part of the
  model: a run that nests calls without end is a run that does not return.

  \<^item> \<open>lookup_loop\<close> is the \<^verbatim>\<open>while\<close> loop, entered with the current values of
    \<^verbatim>\<open>lookup_step\<close>, \<^verbatim>\<open>active_servers\<close> and \<^verbatim>\<open>trace_info\<close>; it returns
    \<^verbatim>\<open>final_response\<close> and \<^verbatim>\<open>trace_info\<close>.
  \<^item> \<open>resolve_names\<close> is the \<^verbatim>\<open>for server_name in server_names\<close> loop of lines 112 to
    120, entered with the current \<^verbatim>\<open>trace_info\<close> and \<^verbatim>\<open>next_server_ips\<close>.
  \<^item> \<open>hierarchical_lookup\<close> is the function from its first line.
\<close>

function (sequential) lookup_loop ::
    "nat \<Rightarrow> 's world \<Rightarrow> 's \<Rightarrow> bytes \<Rightarrow> nat \<Rightarrow> string list \<Rightarrow> trace_entry list \<Rightarrow>
     (lookup_error + (bytes option \<times> trace_entry list \<times> 's)) option"
  and resolve_names ::
    "nat \<Rightarrow> 's world \<Rightarrow> 's \<Rightarrow> string list \<Rightarrow> trace_entry list \<Rightarrow> string list \<Rightarrow>
     (lookup_error + (string list \<times> trace_entry list \<times> 's)) option"
  and hierarchical_lookup ::
    "nat \<Rightarrow> 's world \<Rightarrow> 's \<Rightarrow> bytes \<Rightarrow>
     (lookup_error + (bytes option \<times> trace_entry list \<times> string \<times> 's)) option"
where
  "lookup_loop 0 w s request_bytes lookup_step active_servers trace_info = None"
| "lookup_loop (Suc fuel) w s request_bytes lookup_step active_servers trace_info =
     (case one_hop w s request_bytes (lookup_step + 1) active_servers trace_info of
        Raised e \<Rightarrow> Some (Inl e)
      | Finished final_response trace2 s1 \<Rightarrow> Some (Inr (final_response, trace2, s1))
      | Glue next_server_ips trace2 s1 \<Rightarrow>
          lookup_loop fuel w s1 request_bytes (lookup_step + 1) next_server_ips trace2
      | Names server_names trace2 s1 \<Rightarrow>
          (case resolve_names fuel w s1 server_names trace2 [] of
             None \<Rightarrow> None
           | Some (Inl e) \<Rightarrow> Some (Inl e)
           | Some (Inr (next_server_ips, trace3, s3)) \<Rightarrow>
               if next_server_ips = [] then Some (Inr (None, trace3, s3))
               else lookup_loop fuel w s3 request_bytes (lookup_step + 1)
                      next_server_ips trace3))"
| "resolve_names fuel w s [] trace_info next_server_ips =
     Some (Inr (next_server_ips, trace_info, s))"
| "resolve_names fuel w s (server_name # rest) trace_info next_server_ips =
     (case question w server_name of
        None \<Rightarrow> Some (Inl DNSLabelError)
      | Some ns_query \<Rightarrow>
          (case hierarchical_lookup fuel w s ns_query of
             None \<Rightarrow> None
           | Some (Inl e) \<Rightarrow> Some (Inl e)
           | Some (Inr (ns_response, ns_trace, ns_name, s')) \<Rightarrow>
               (case collect w ns_response next_server_ips of
                  Inl e \<Rightarrow> Some (Inl e)
                | Inr ips \<Rightarrow> resolve_names fuel w s' rest (trace_info @ ns_trace) ips)))"
| "hierarchical_lookup fuel w s request_bytes =
     (case parse w request_bytes of
        None \<Rightarrow> Some (Inl DNSError)
      | Some dns_request \<Rightarrow>
          (case lookup_loop fuel w s request_bytes 0 NAME_SERVERS [] of
             None \<Rightarrow> None
           | Some (Inl e) \<Rightarrow> Some (Inl e)
           | Some (Inr (final_response, trace_info, s')) \<Rightarrow>
               Some (Inr (final_response, trace_info, qname dns_request, s'))))"
  by pat_completeness auto

termination
  by (relation "inv_image (less_than <*lex*> less_than <*lex*> less_than)
        (\<lambda>x. case x of
            Inl (fuel, w, s, rq, st, act, tr) \<Rightarrow> (fuel, 0::nat, 0::nat)
          | Inr (Inl (fuel, w, s, names, tr, ips)) \<Rightarrow> (fuel, 2, length names)
          | Inr (Inr (fuel, w, s, rq)) \<Rightarrow> (fuel, 1, 0))") auto

declare lookup_loop.simps [simp del] resolve_names.simps [simp del]
  hierarchical_lookup.simps [simp del]

text \<open>
  The nested lookups that the loop over \<^verbatim>\<open>server_names\<close> makes, in the order in which it
  makes them, each from the network state its predecessor left: the reply and the trace
  that each call returned, and the state it left. The list stops at a call that does not
  return a tuple.
\<close>

fun nested_lookups ::
  "nat \<Rightarrow> 's world \<Rightarrow> 's \<Rightarrow> string list \<Rightarrow> (bytes option \<times> trace_entry list \<times> 's) list" where
  "nested_lookups fuel w s [] = []"
| "nested_lookups fuel w s (server_name # rest) =
     (case question w server_name of
        None \<Rightarrow> []
      | Some ns_query \<Rightarrow>
          (case hierarchical_lookup fuel w s ns_query of
             Some (Inr (ns_response, ns_trace, ns_name, s')) \<Rightarrow>
               (ns_response, ns_trace, s') # nested_lookups fuel w s' rest
           | _ \<Rightarrow> []))"

text \<open>The state after a list of nested lookups that started in state \<open>s\<close>.\<close>

definition state_after :: "'s \<Rightarrow> (bytes option \<times> trace_entry list \<times> 's) list \<Rightarrow> 's" where
  "state_after s results = (if results = [] then s else snd (snd (last results)))"

text \<open>
  The addresses that the reply of a nested lookup contributes, in the words of the
  specification: the data of the address records (type 1) in the answer section of a
  reply that was received and decodes.
\<close>

definition reply_ips :: "'s world \<Rightarrow> bytes option \<Rightarrow> string list" where
  "reply_ips w ns_response =
     (case ns_response of
        None \<Rightarrow> []
      | Some ns_bytes \<Rightarrow>
          if ns_bytes = [] then []
          else (case parse w ns_bytes of
                  None \<Rightarrow> []
                | Some ns_parsed \<Rightarrow> map rdata (filter (\<lambda>r. rtype r = 1) (rr ns_parsed))))"

text \<open>
  What each server of a list would do when the servers are asked in order, each exchange
  starting from the state the previous one left.
\<close>

fun attempts :: "'s world \<Rightarrow> 's \<Rightarrow> bytes \<Rightarrow> string list \<Rightarrow> send_result list" where
  "attempts w s request_bytes [] = []"
| "attempts w s request_bytes (name_server # rest) =
     (case exchange w s name_server request_bytes of
        (result, s') \<Rightarrow> result # attempts w s' request_bytes rest)"

subsection \<open>Vocabulary for the properties\<close>

text \<open>
  The entries a stage with step counter \<open>k\<close> can append, and the entries the resolver can
  append at all (the counter is incremented before its first use).
\<close>

definition stage_entry :: "nat \<Rightarrow> trace_entry \<Rightarrow> bool" where
  "stage_entry k e \<longleftrightarrow>
     (\<exists>srv. e = timeout_entry k srv) \<or> (\<exists>srv t m. e = reply_entry k srv t m)"

definition made_entry :: "trace_entry \<Rightarrow> bool" where
  "made_entry e \<longleftrightarrow> (\<exists>k\<ge>1. stage_entry k e)"


text \<open>The trace with which a pass through the loop body ends, when no exception ends it.\<close>

fun hop_trace :: "'s hop \<Rightarrow> trace_entry list option" where
  "hop_trace (Raised e) = None"
| "hop_trace (Finished r tr s) = Some tr"
| "hop_trace (Glue ips tr s) = Some tr"
| "hop_trace (Names ns tr s) = Some tr"


subsection \<open>A small network\<close>

text \<open>
  The first root server does not answer; the second refers to a server for \<open>com.\<close>,
  which refers to a server for \<open>example.com.\<close>, which answers. Buffers are
  one byte long: 1 is the query, 10, 11 and 12 are the three replies.
\<close>

definition A_record :: "string \<Rightarrow> string \<Rightarrow> resource_record" where
  "A_record name ip = \<lparr>rname = name, rtype = 1, rdata = ip\<rparr>"

definition NS_record :: "string \<Rightarrow> string \<Rightarrow> resource_record" where
  "NS_record name target = \<lparr>rname = name, rtype = 2, rdata = target\<rparr>"

definition root_referral :: dns_record where
  "root_referral = \<lparr>qname = ''example.com.'', rr = [],
     auth = [NS_record ''com.'' ''a.gtld-servers.net.''],
     ar = [A_record ''a.gtld-servers.net.'' ''192.5.6.30'']\<rparr>"

definition tld_referral :: dns_record where
  "tld_referral = \<lparr>qname = ''example.com.'', rr = [],
     auth = [NS_record ''example.com.'' ''a.iana-servers.net.''],
     ar = [A_record ''a.iana-servers.net.'' ''199.43.135.53'']\<rparr>"

definition final_answer :: dns_record where
  "final_answer = \<lparr>qname = ''example.com.'',
     rr = [A_record ''example.com.'' ''93.184.216.34''], auth = [], ar = []\<rparr>"

definition example_query :: dns_record where
  "example_query = \<lparr>qname = ''example.com.'', rr = [], auth = [], ar = []\<rparr>"

definition demo_parse :: "bytes \<Rightarrow> dns_record option" where
  "demo_parse b =
     (if b = [1] then Some example_query
      else if b = [10] then Some root_referral
      else if b = [11] then Some tld_referral
      else if b = [12] then Some final_answer
      else None)"

definition demo_world :: "unit world" where
  "demo_world = \<lparr>
     exchange = (\<lambda>s srv rq.
       if srv = ''199.9.14.201'' then (Reply [10] 1250, s)
       else if srv = ''192.5.6.30'' then (Reply [11] 2034, s)
       else if srv = ''199.43.135.53'' then (Reply [12] 987, s)
       else (TimedOut, s)),
     parse = demo_parse,
     question = (\<lambda>name. None)\<rparr>"


text \<open>A network in which no server answers.\<close>

definition dead_world :: "unit world" where
  "dead_world = \<lparr>exchange = (\<lambda>s srv rq. (TimedOut, s)), parse = demo_parse,
     question = (\<lambda>name. None)\<rparr>"

text \<open>
  A network with a referral that carries no glue. The root server refers a query for
  \<open>example.org.\<close> (buffer 2) to a server for \<open>org.\<close>, which names a server
  \<open>ns.icann.org.\<close> without giving its IPv4 address. The root server answers the query
  for that name (buffer 3) itself, and the server found this way answers the first query.
  One more server answers with an empty message. The replies carry records of other
  types as well (28 is an IPv6 address, 43 a delegation signer, 46 a signature). The
  state of this network counts the exchanges made.
\<close>

definition org_query :: dns_record where
  "org_query = \<lparr>qname = ''example.org.'', rr = [], auth = [], ar = []\<rparr>"

definition ns_query :: dns_record where
  "ns_query = \<lparr>qname = ''ns.icann.org.'', rr = [], auth = [], ar = []\<rparr>"

definition org_referral :: dns_record where
  "org_referral = \<lparr>qname = ''example.org.'', rr = [],
     auth = [NS_record ''org.'' ''a0.org.afilias-nst.info.''],
     ar = [\<lparr>rname = ''a0.org.afilias-nst.info.'', rtype = 28, rdata = ''2001:500:e::1''\<rparr>,
           A_record ''a0.org.afilias-nst.info.'' ''199.19.56.1'']\<rparr>"

definition glueless_referral :: dns_record where
  "glueless_referral = \<lparr>qname = ''example.org.'', rr = [],
     auth = [\<lparr>rname = ''example.org.'', rtype = 43, rdata = ''31406 8 2 F78CF3''\<rparr>,
             NS_record ''example.org.'' ''ns.icann.org.''],
     ar = [\<lparr>rname = ''ns.icann.org.'', rtype = 28, rdata = ''2001:500:89::53''\<rparr>]\<rparr>"

definition ns_answer :: dns_record where
  "ns_answer = \<lparr>qname = ''ns.icann.org.'',
     rr = [\<lparr>rname = ''ns.icann.org.'', rtype = 46, rdata = ''A 8 3 3600''\<rparr>,
           A_record ''ns.icann.org.'' ''199.4.138.53''], auth = [], ar = []\<rparr>"

definition org_answer :: dns_record where
  "org_answer = \<lparr>qname = ''example.org.'',
     rr = [A_record ''example.org.'' ''93.184.216.34''], auth = [], ar = []\<rparr>"

definition empty_reply :: dns_record where
  "empty_reply = \<lparr>qname = ''example.org.'', rr = [], auth = [], ar = []\<rparr>"

text \<open>
  A referral without IPv4 glue that names two servers, for the network below in which
  the lookup of the first name ends in a reply that cannot be decoded.
\<close>

definition two_name_referral :: dns_record where
  "two_name_referral = \<lparr>qname = ''example.org.'', rr = [],
     auth = [NS_record ''example.org.'' ''ns1.example.net.'',
             NS_record ''example.org.'' ''ns.icann.org.''],
     ar = [\<lparr>rname = ''ns.icann.org.'', rtype = 28, rdata = ''2001:500:89::53''\<rparr>]\<rparr>"

definition glueless_parse :: "bytes \<Rightarrow> dns_record option" where
  "glueless_parse b =
     (if b = [2] then Some org_query
      else if b = [3] then Some ns_query
      else if b = [20] then Some org_referral
      else if b = [21] then Some glueless_referral
      else if b = [22] then Some ns_answer
      else if b = [23] then Some org_answer
      else if b = [24] then Some empty_reply
      else if b = [25] then Some two_name_referral
      else None)"

definition glueless_world :: "nat world" where
  "glueless_world = \<lparr>
     exchange = (\<lambda>s srv rq.
       if srv = ''198.41.0.4'' \<and> rq = [2] then (Reply [20] 1500, s + 1)
       else if srv = ''198.41.0.4'' \<and> rq = [3] then (Reply [22] 1400, s + 1)
       else if srv = ''199.19.56.1'' \<and> rq = [2] then (Reply [21] 1800, s + 1)
       else if srv = ''199.4.138.53'' \<and> rq = [2] then (Reply [23] 900, s + 1)
       else if srv = ''192.0.2.1'' then (Reply [24] 700, s + 1)
       else (TimedOut, s + 1)),
     parse = glueless_parse,
     question = (\<lambda>name. if name = ''ns.icann.org.'' then Some [3] else None)\<rparr>"

text \<open>
  A network in which the root server answers the query for \<open>example.org.\<close> with the
  referral that names two servers. Its reply to the query for the first name (buffer 4)
  cannot be decoded; it answers the query for the second name (buffer 3) as before.
\<close>

definition broken_world :: "nat world" where
  "broken_world = \<lparr>
     exchange = (\<lambda>s srv rq.
       if srv = ''198.41.0.4'' \<and> rq = [2] then (Reply [25] 1500, s + 1)
       else if srv = ''198.41.0.4'' \<and> rq = [4] then (Reply [99] 1300, s + 1)
       else if srv = ''198.41.0.4'' \<and> rq = [3] then (Reply [22] 1400, s + 1)
       else (TimedOut, s + 1)),
     parse = glueless_parse,
     question = (\<lambda>name. if name = ''ns1.example.net.'' then Some [4]
                        else if name = ''ns.icann.org.'' then Some [3] else None)\<rparr>"

text \<open>
  A network in which the root server answers with a message that has no records at all.
\<close>

definition lame_world :: "nat world" where
  "lame_world = \<lparr>
     exchange = (\<lambda>s srv rq. (Reply [24] 700, s + 1)),
     parse = glueless_parse,
     question = (\<lambda>name. None)\<rparr>"

text \<open>
  A world in which every server answers every query with a referral that carries glue:
  no answer records, and at least one address record in the additional section.
\<close>

definition refers_with_glue :: "'s world \<Rightarrow> bool" where
  "refers_with_glue w \<longleftrightarrow>
     (\<forall>s srv rq. \<exists>d t s' m. exchange w s srv rq = (Reply d t, s') \<and>
        parse w d = Some m \<and> rr m = [] \<and> glue_ips m \<noteq> [])"

text \<open>
  A responder that refers every query back to itself: whoever is asked names the server
  \<open>ns.loop.example.\<close> at 203.0.113.66, and so does that server.
\<close>

definition loop_referral :: dns_record where
  "loop_referral = \<lparr>qname = ''example.com.'', rr = [],
     auth = [NS_record ''com.'' ''ns.loop.example.''],
     ar = [A_record ''ns.loop.example.'' ''203.0.113.66'']\<rparr>"

definition loop_world :: "unit world" where
  "loop_world = \<lparr>
     exchange = (\<lambda>s srv rq. (Reply [66] 500, s)),
     parse = (\<lambda>b. if b = [1] then Some example_query
                   else if b = [66] then Some loop_referral else None),
     question = (\<lambda>name. None)\<rparr>"

text \<open>
  The small network again, but the first root server now answers with a buffer that
  cannot be decoded. The second root server still answers as before.
\<close>

definition garbled_world :: "unit world" where
  "garbled_world = \<lparr>
     exchange = (\<lambda>s srv rq.
       if srv = ''198.41.0.4'' then (Reply [99] 800, s)
       else exchange demo_world s srv rq),
     parse = demo_parse,
     question = (\<lambda>name. None)\<rparr>"

text \<open>
  A world without nested lookups: no reply that decodes is a referral that names servers
  without giving an address.
\<close>

definition no_glueless_referral :: "'s world \<Rightarrow> bool" where
  "no_glueless_referral w \<longleftrightarrow>
     (\<forall>b m. parse w b = Some m \<and> rr m = [] \<and> glue_ips m = [] \<longrightarrow> ns_names m = [])"

text \<open>The entries of a trace that are not timeouts.\<close>

definition replies :: "trace_entry list \<Rightarrow> trace_entry list" where
  "replies trace_info = filter (\<lambda>e. stage e \<noteq> ''Timeout'') trace_info"

text \<open>
  A result whose trace is put behind a given trace, for the function's results and for
  the ways in which a pass through the loop body ends.
\<close>

fun add_prefix ::
  "trace_entry list \<Rightarrow> lookup_error + 'a \<times> trace_entry list \<times> 's \<Rightarrow>
   lookup_error + 'a \<times> trace_entry list \<times> 's" where
  "add_prefix tr (Inl e) = Inl e"
| "add_prefix tr (Inr (r, t, s')) = Inr (r, tr @ t, s')"

definition with_prefix ::
  "trace_entry list \<Rightarrow> (lookup_error + 'a \<times> trace_entry list \<times> 's) option \<Rightarrow>
   (lookup_error + 'a \<times> trace_entry list \<times> 's) option" where
  "with_prefix tr = map_option (add_prefix tr)"

fun hop_with_prefix :: "trace_entry list \<Rightarrow> 's hop \<Rightarrow> 's hop" where
  "hop_with_prefix tr (Raised e) = Raised e"
| "hop_with_prefix tr (Finished r t s) = Finished r (tr @ t) s"
| "hop_with_prefix tr (Glue ips t s) = Glue ips (tr @ t) s"
| "hop_with_prefix tr (Names ns t s) = Names ns (tr @ t) s"


section \<open>The caching resolver of c2.py\<close>

subsection \<open>Data\<close>

text \<open>
  A set of records of one type in a section of a reply, as \<^verbatim>\<open>step_by_step_lookup\<close> reads
  it: the numeric record type \<^verbatim>\<open>rdtype\<close> (1 for address records) and the members
  \<^verbatim>\<open>items\<close>; of a member only \<^verbatim>\<open>.address\<close> is read, and only of address records.
\<close>

record rrset =
  rdtype :: nat
  items :: "string list"

text \<open>A reply of \<^verbatim>\<open>dns.query.udp\<close>; only these two sections are read.\<close>

record message =
  answer :: "rrset list"
  additional :: "rrset list"

text \<open>
  Everything outside the function. \<open>udp\<close> is \<^verbatim>\<open>dns.query.udp\<close> with its three second
  timeout, asked for a name at a server (\<open>None\<close> when the caller passes Python's
  \<^verbatim>\<open>None\<close>): it returns a reply or raises an exception, given here by its text, and
  changes the state of the network. \<open>perf_counter\<close> reads the monotonic clock, in
  hundredths of a millisecond, the precision of the log. \<open>now\<close> is the formatted
  wall-clock time. \<open>from_text\<close> is \<^verbatim>\<open>dns.name.from_text\<close>, which raises for a text
  that is not a name (\<open>None\<close>). \<open>item_zero\<close> is what \<^verbatim>\<open>items[0].address\<close> does
  with the members of a set of address records: the address it yields, or the text of
  the exception it raises. This depends on the version of the library, which the
  repository does not fix; the two behaviours are defined below.
\<close>

record 's resolver_env =
  udp :: "'s \<Rightarrow> string option \<Rightarrow> string \<Rightarrow> (string + message) \<times> 's"
  perf_counter :: "'s \<Rightarrow> int"
  now :: "'s \<Rightarrow> string"
  from_text :: "string \<Rightarrow> string option"
  item_zero :: "string list \<Rightarrow> string + string"

text \<open>
  Before version 2.0 of dnspython \<^verbatim>\<open>items\<close> is a list: the subscript 0 gives the
  first member, and raises \<^verbatim>\<open>IndexError\<close> on an empty list. From version 2.0 on it is
  a dictionary whose keys are the members themselves, so that the subscript 0 always
  raises \<^verbatim>\<open>KeyError(0)\<close>, whose text is \<open>0\<close>.
\<close>

definition items_as_list :: "string list \<Rightarrow> string + string" where
  "items_as_list xs = (case xs of [] \<Rightarrow> Inl ''list index out of range'' | a # _ \<Rightarrow> Inr a)"

definition items_as_dict :: "string list \<Rightarrow> string + string" where
  "items_as_dict xs = Inl ''0''"

text \<open>
  What the function reads and writes: the module's dictionary \<^verbatim>\<open>domain_cache\<close> (its
  entries in insertion order), the lines that \<^verbatim>\<open>write_trace\<close> has appended to the trace
  file, and the network.
\<close>

record 's resolver_state =
  domain_cache :: "(string \<times> string list) list"
  trace_log :: "string list"
  net :: 's

definition PRIMARY_SERVERS :: "string list" where
  "PRIMARY_SERVERS = [''198.41.0.4'', ''199.9.14.201'', ''192.33.4.12'']"

subsection \<open>Formatting\<close>

text \<open>A time in hundredths of a millisecond, printed as \<^verbatim>\<open>:.2f\<close> prints milliseconds.\<close>

definition fmt_2f :: "int \<Rightarrow> string" where
  "fmt_2f d =
     (if d < 0 then ''-'' else '''') @ show_nat (nat \<bar>d\<bar> div 100) @ ''.'' @
     [digit_char (nat \<bar>d\<bar> mod 100 div 10), digit_char (nat \<bar>d\<bar> mod 10)]"

text \<open>
  A list of addresses as an f-string prints it. An address has no quote in it, so each
  one is printed between single quotes.
\<close>

fun comma_join :: "string list \<Rightarrow> string" where
  "comma_join [] = ''''"
| "comma_join [x] = x"
| "comma_join (x # y # ys) = x @ '', '' @ comma_join (y # ys)"

definition py_repr :: "string list \<Rightarrow> string" where
  "py_repr xs = ''['' @ comma_join (map (\<lambda>x. [CHR 0x27] @ x @ [CHR 0x27]) xs) @ '']''"

text \<open>The server in a log line; the authoritative server may be \<^verbatim>\<open>None\<close>.\<close>

definition py_str :: "string option \<Rightarrow> string" where
  "py_str x = (case x of None \<Rightarrow> ''None'' | Some v \<Rightarrow> v)"

text \<open>The lines of the trace log (lines 36, 52, 64, 76, 86, 99, 101, 104, 109 and 111).\<close>

definition line_prefix :: "string \<Rightarrow> string \<Rightarrow> string \<Rightarrow> string" where
  "line_prefix current_time hostname who =
     current_time @ '' | '' @ hostname @ '' | Iterative | '' @ who"

definition cache_hit_line :: "string \<Rightarrow> string \<Rightarrow> string list \<Rightarrow> string" where
  "cache_hit_line current_time hostname cached =
     line_prefix current_time hostname ''CACHE'' @ '' | Step: Cache | Response: '' @
     py_repr cached @ '' | RTT: 0 ms | Total: 0 ms | Cache HIT''"

definition reply_line :: "string \<Rightarrow> string \<Rightarrow> string \<Rightarrow> string \<Rightarrow> string \<Rightarrow> int \<Rightarrow> string" where
  "reply_line current_time hostname who stage_name what phase_duration =
     line_prefix current_time hostname who @ '' | Step: '' @ stage_name @ '' | Response: '' @
     what @ '' | RTT: '' @ fmt_2f phase_duration @ '' ms | Cache MISS''"

definition fail_line :: "string \<Rightarrow> string \<Rightarrow> string \<Rightarrow> string \<Rightarrow> string \<Rightarrow> string" where
  "fail_line current_time hostname who stage_name error =
     line_prefix current_time hostname who @ '' | Step: '' @ stage_name @
     '' | Response: FAIL ('' @ error @ '') | RTT: - | Cache MISS''"

definition total_line :: "string \<Rightarrow> string \<Rightarrow> int \<Rightarrow> string \<Rightarrow> string" where
  "total_line current_time hostname complete_time outcome =
     current_time @ '' | '' @ hostname @ '' | TOTAL | TotalTime: '' @ fmt_2f complete_time @
     '' ms | '' @ outcome @ [CHR 0x0A]"

subsection \<open>The three phases\<close>

text \<open>
  The address that a reply names in its additional section (lines 55 to 59 and 80 to
  84): \<^verbatim>\<open>items[0].address\<close> of the first set of address records. \<open>Inr None\<close>: there
  is no such set. \<open>Inl\<close>: the subscript raises.
\<close>

definition first_address :: "'s resolver_env \<Rightarrow> message \<Rightarrow> string + string option" where
  "first_address env reply_message =
     (case List.find (\<lambda>resource_record. rdtype resource_record = 1)
             (additional reply_message) of
        None \<Rightarrow> Inr None
      | Some resource_record \<Rightarrow>
          (case item_zero env (items resource_record) of
             Inl error \<Rightarrow> Inl error
           | Inr a \<Rightarrow> Inr (Some a)))"

text \<open>
  Phase 1 (lines 45 to 67), the loop over the root servers that are left, with the
  current \<^verbatim>\<open>accumulated_rtt\<close>, log and network state. It ends with the address of the
  server for the top-level domain, when a \<^verbatim>\<open>break\<close> leaves the loop, or with \<open>None\<close>,
  when the servers are exhausted.
\<close>

fun root_phase ::
  "'s resolver_env \<Rightarrow> string \<Rightarrow> string \<Rightarrow> string \<Rightarrow> string list \<Rightarrow> int \<Rightarrow> string list \<Rightarrow> 's \<Rightarrow>
   string option \<times> int \<times> string list \<times> 's" where
  "root_phase env current_time hostname query_target [] accumulated_rtt log s =
     (None, accumulated_rtt, log, s)"
| "root_phase env current_time hostname query_target (root_server # rest) accumulated_rtt log s =
     (case udp env s (Some root_server) query_target of
        (Inl error, s1) \<Rightarrow>
          root_phase env current_time hostname query_target rest accumulated_rtt
            (log @ [fail_line current_time hostname root_server ''Root'' error]) s1
      | (Inr root_response, s1) \<Rightarrow>
          (let phase_duration = perf_counter env s1 - perf_counter env s;
               accumulated_rtt' = accumulated_rtt + phase_duration;
               log1 = log @ [reply_line current_time hostname root_server ''Root''
                               ''Referral'' phase_duration]
           in case first_address env root_response of
                Inr None \<Rightarrow>
                  root_phase env current_time hostname query_target rest accumulated_rtt' log1 s1
              | Inr (Some tld_server) \<Rightarrow> (Some tld_server, accumulated_rtt', log1, s1)
              | Inl error \<Rightarrow>
                  root_phase env current_time hostname query_target rest accumulated_rtt'
                    (log1 @ [fail_line current_time hostname root_server ''Root'' error]) s1))"

text \<open>
  Phase 2 (lines 70 to 87). \<open>Inl\<close>: an exception was caught and the function returns;
  \<open>Inr\<close>: the authoritative server, which is \<^verbatim>\<open>None\<close> when the reply names none.
\<close>

definition tld_phase ::
  "'s resolver_env \<Rightarrow> string \<Rightarrow> string \<Rightarrow> string \<Rightarrow> string \<Rightarrow> int \<Rightarrow> string list \<Rightarrow> 's \<Rightarrow>
   (unit + string option) \<times> int \<times> string list \<times> 's" where
  "tld_phase env current_time hostname query_target tld_server accumulated_rtt log s =
     (case udp env s (Some tld_server) query_target of
        (Inl error, s1) \<Rightarrow>
          (Inl (), accumulated_rtt,
           log @ [fail_line current_time hostname tld_server ''TLD'' error], s1)
      | (Inr tld_response, s1) \<Rightarrow>
          (let phase_duration = perf_counter env s1 - perf_counter env s;
               accumulated_rtt' = accumulated_rtt + phase_duration;
               log1 = log @ [reply_line current_time hostname tld_server ''TLD''
                               ''Referral'' phase_duration]
           in case first_address env tld_response of
                Inr authoritative_server \<Rightarrow> (Inr authoritative_server, accumulated_rtt', log1, s1)
              | Inl error \<Rightarrow>
                  (Inl (), accumulated_rtt',
                   log1 @ [fail_line current_time hostname tld_server ''TLD'' error], s1)))"

text \<open>Line 98: the addresses of all members of the sets of address records of an answer.\<close>

definition answer_addresses :: "message \<Rightarrow> string list" where
  "answer_addresses auth_response =
     concat (map items (filter (\<lambda>answer_rr. rdtype answer_rr = 1) (answer auth_response)))"

text \<open>
  Phase 3 (lines 90 to 104): the value of \<^verbatim>\<open>resolved_addresses\<close> after it, the log and
  the network state.
\<close>

definition authoritative_phase ::
  "'s resolver_env \<Rightarrow> string \<Rightarrow> string \<Rightarrow> string \<Rightarrow> string option \<Rightarrow> string list \<Rightarrow> 's \<Rightarrow>
   string list option \<times> string list \<times> 's" where
  "authoritative_phase env current_time hostname query_target authoritative_server log s =
     (case udp env s authoritative_server query_target of
        (Inl error, s1) \<Rightarrow>
          (None,
           log @ [fail_line current_time hostname (py_str authoritative_server)
                    ''Authoritative'' error], s1)
      | (Inr auth_response, s1) \<Rightarrow>
          (let phase_duration = perf_counter env s1 - perf_counter env s
           in if answer auth_response \<noteq> [] then
                (Some (answer_addresses auth_response),
                 log @ [reply_line current_time hostname (py_str authoritative_server)
                          ''Authoritative'' (py_repr (answer_addresses auth_response))
                          phase_duration], s1)
              else
                (None,
                 log @ [reply_line current_time hostname (py_str authoritative_server)
                          ''Authoritative'' ''NO ANSWER'' phase_duration], s1)))"

subsection \<open>The function\<close>

text \<open>
  \<^verbatim>\<open>step_by_step_lookup\<close>. It returns the addresses (or \<^verbatim>\<open>None\<close>), a time and the
  string \<open>HIT\<close> or \<open>MISS\<close>, and leaves a new state; the one exception that leaves it is
  that of \<^verbatim>\<open>dns.name.from_text\<close>, raised outside any \<^verbatim>\<open>try\<close>.
\<close>

datatype resolver_error = NameError

definition step_by_step_lookup ::
  "'s resolver_env \<Rightarrow> 's resolver_state \<Rightarrow> string \<Rightarrow>
   resolver_error + ((string list option \<times> int \<times> string) \<times> 's resolver_state)" where
  "step_by_step_lookup env st hostname =
     (let current_time = now env (net st);
          lookup_start = perf_counter env (net st)
      in case map_of (domain_cache st) hostname of
           Some cached \<Rightarrow>
             Inr ((Some cached, 0, ''HIT''),
                  st\<lparr>trace_log := trace_log st @ [cache_hit_line current_time hostname cached]\<rparr>)
         | None \<Rightarrow>
             (case from_text env hostname of
                None \<Rightarrow> Inl NameError
              | Some query_target \<Rightarrow>
                  (case root_phase env current_time hostname query_target PRIMARY_SERVERS 0
                          (trace_log st) (net st) of
                     (None, accumulated_rtt, log1, s1) \<Rightarrow>
                       Inr ((None, accumulated_rtt, ''MISS''),
                            st\<lparr>trace_log := log1, net := s1\<rparr>)
                   | (Some tld_server, accumulated_rtt, log1, s1) \<Rightarrow>
                       (case tld_phase env current_time hostname query_target tld_server
                               accumulated_rtt log1 s1 of
                          (Inl _, accumulated_rtt2, log2, s2) \<Rightarrow>
                            Inr ((None, accumulated_rtt2, ''MISS''),
                                 st\<lparr>trace_log := log2, net := s2\<rparr>)
                        | (Inr authoritative_server, accumulated_rtt2, log2, s2) \<Rightarrow>
                            (case authoritative_phase env current_time hostname query_target
                                    authoritative_server log2 s2 of
                               (resolved_addresses, log3, s3) \<Rightarrow>
                                 (let complete_time = perf_counter env s3 - lookup_start
                                  in case resolved_addresses of
                                       Some (a # more_addresses) \<Rightarrow>
                                         Inr ((resolved_addresses, complete_time, ''MISS''),
                                              st\<lparr>domain_cache :=
                                                   AList.update hostname (a # more_addresses)
                                                     (domain_cache st),
                                                 trace_log := log3 @
                                                   [total_line current_time hostname
                                                      complete_time ''Cache Stored''],
                                                 net := s3\<rparr>)
                                     | _ \<Rightarrow>
                                         Inr ((resolved_addresses, complete_time, ''MISS''),
                                              st\<lparr>trace_log := log3 @
                                                   [total_line current_time hostname
                                                      complete_time ''No Response''],
                                                 net := s3\<rparr>)))))))"


subsection \<open>A small network for the caching resolver\<close>

text \<open>
  The first root server does not answer. The second names a server for \<open>com.\<close>, which
  names the authoritative server, which answers a query for \<open>www.example.com.\<close> with
  an alias record only and every other query with an address. The state counts the
  exchanges, and each exchange takes 12.50 ms. The library is one in which \<^verbatim>\<open>items\<close>
  is a list.
\<close>

definition lab_root_reply :: message where
  "lab_root_reply = \<lparr>answer = [], additional =
     [\<lparr>rdtype = 28, items = [''2001:503:a83e::2:30'']\<rparr>,
      \<lparr>rdtype = 1, items = [''192.5.6.30'']\<rparr>]\<rparr>"

definition lab_tld_reply :: message where
  "lab_tld_reply = \<lparr>answer = [], additional = [\<lparr>rdtype = 1, items = [''199.43.135.53'']\<rparr>]\<rparr>"

definition lab_alias_reply :: message where
  "lab_alias_reply = \<lparr>answer = [\<lparr>rdtype = 5, items = [''example.com.'']\<rparr>], additional = []\<rparr>"

definition lab_answer :: message where
  "lab_answer = \<lparr>answer = [\<lparr>rdtype = 1, items = [''93.184.216.34'']\<rparr>], additional = []\<rparr>"

definition lab_udp :: "nat \<Rightarrow> string option \<Rightarrow> string \<Rightarrow> (string + message) \<times> nat" where
  "lab_udp s where_to name =
     (if where_to = Some ''199.9.14.201'' then (Inr lab_root_reply, s + 1)
      else if where_to = Some ''192.5.6.30'' then (Inr lab_tld_reply, s + 1)
      else if where_to = Some ''199.43.135.53'' then
        (if name = ''www.example.com.'' then (Inr lab_alias_reply, s + 1)
         else (Inr lab_answer, s + 1))
      else (Inl ''The DNS operation timed out.'', s + 1))"

definition lab_env :: "nat resolver_env" where
  "lab_env = \<lparr>udp = lab_udp, perf_counter = (\<lambda>s. 1250 * int s),
     now = (\<lambda>s. ''2025-10-20 10:00:00''),
     from_text = (\<lambda>name. Some (name @ ''.'')),
     item_zero = items_as_list\<rparr>"

text \<open>The same network, seen through version 2 of the library.\<close>

definition lab_env2 :: "nat resolver_env" where
  "lab_env2 = lab_env\<lparr>item_zero := items_as_dict\<rparr>"

definition fresh_state :: "nat resolver_state" where
  "fresh_state = \<lparr>domain_cache = [], trace_log = [], net = 0\<rparr>"

text \<open>The state that the lookup of \<open>www.example.com\<close> leaves when it starts in the fresh state.\<close>

definition after_alias :: "nat resolver_state" where
  "after_alias =
     \<lparr>domain_cache = [],
      trace_log =
        [fail_line ''2025-10-20 10:00:00'' ''www.example.com'' ''198.41.0.4'' ''Root''
           ''The DNS operation timed out.'',
         reply_line ''2025-10-20 10:00:00'' ''www.example.com'' ''199.9.14.201'' ''Root''
           ''Referral'' 1250,
         reply_line ''2025-10-20 10:00:00'' ''www.example.com'' ''192.5.6.30'' ''TLD''
           ''Referral'' 1250,
         reply_line ''2025-10-20 10:00:00'' ''www.example.com'' ''199.43.135.53''
           ''Authoritative'' ''[]'' 1250,
         total_line ''2025-10-20 10:00:00'' ''www.example.com'' 5000 ''No Response''],
      net = 4\<rparr>"

section \<open>Properties of the resolver\<close>

subsection \<open>The server loop\<close>

lemma length_attempts: "length (attempts w s rq act) = length act"
  by (induction act arbitrary: s) (auto split: prod.splits)

lemma query_servers_shape:
  "query_servers w s rq k act tr = Inr (r, tr', s') \<Longrightarrow>
   \<exists>j\<le>length act. tr' = tr @ map (timeout_entry k) (take j act) \<and>
     (r = None \<longrightarrow> j = length act) \<and>
     (\<forall>srv d t. r = Some (srv, d, t) \<longrightarrow> j < length act \<and> srv = act ! j)"
proof (induction act arbitrary: s tr)
  case Nil
  then show ?case by simp
next
  case (Cons a act)
  obtain res s1 where ex: "exchange w s a rq = (res, s1)" by (cases "exchange w s a rq")
  show ?case
  proof (cases res)
    case (Reply d t)
    with Cons.prems ex show ?thesis by (intro exI[of _ 0]) auto
  next
    case TimedOut
    with Cons.prems ex have "query_servers w s1 rq k act (tr @ [timeout_entry k a]) = Inr (r, tr', s')"
      by simp
    from Cons.IH[OF this] obtain j where j: "j \<le> length act"
      "tr' = (tr @ [timeout_entry k a]) @ map (timeout_entry k) (take j act)"
      "r = None \<longrightarrow> j = length act"
      "\<forall>srv d t. r = Some (srv, d, t) \<longrightarrow> j < length act \<and> srv = act ! j" by blast
    then show ?thesis by (intro exI[of _ "Suc j"]) auto
  next
    case SocketFailure
    with Cons.prems ex show ?thesis by simp
  qed
qed

lemma query_servers_all_timeout:
  "\<forall>r\<in>set (attempts w s rq act). r = TimedOut \<Longrightarrow>
   \<exists>s'. query_servers w s rq k act tr = Inr (None, tr @ map (timeout_entry k) act, s')"
proof (induction act arbitrary: s tr)
  case Nil
  then show ?case by simp
next
  case (Cons a act)
  obtain res s1 where ex: "exchange w s a rq = (res, s1)" by (cases "exchange w s a rq")
  with Cons.prems have res: "res = TimedOut" and rest: "\<forall>r\<in>set (attempts w s1 rq act). r = TimedOut"
    by auto
  from Cons.IH[OF rest, of "tr @ [timeout_entry k a]"] ex res show ?case by auto
qed

lemma query_servers_first_reply:
  "attempts w s rq act = replicate j TimedOut @ Reply d t # later \<Longrightarrow>
   \<exists>s'. query_servers w s rq k act tr =
     Inr (Some (act ! j, d, t), tr @ map (timeout_entry k) (take j act), s')"
proof (induction j arbitrary: s tr act)
  case 0
  then show ?case by (cases act) (auto split: prod.splits)
next
  case (Suc j)
  then obtain a rest where act: "act = a # rest" by (cases act) auto
  obtain res s1 where ex: "exchange w s a rq = (res, s1)" by (cases "exchange w s a rq")
  with Suc.prems act have res: "res = TimedOut"
    and rest: "attempts w s1 rq rest = replicate j TimedOut @ Reply d t # later"
    by auto
  from Suc.IH[OF rest, of "tr @ [timeout_entry k a]"] ex res act show ?case by auto
qed

subsection \<open>Traces only grow\<close>

lemma stage_entry_timeout: "stage_entry k (timeout_entry k srv)"
  unfolding stage_entry_def by blast

lemma stage_entry_reply: "stage_entry k (reply_entry k srv t m)"
  unfolding stage_entry_def by blast

lemma one_hop_extends:
  assumes "hop_trace (one_hop w s rq k act tr) = Some tr2"
  shows "\<exists>t. tr2 = tr @ t \<and> (\<forall>e\<in>set t. stage_entry k e)"
proof (cases "query_servers w s rq k act tr")
  case (Inl e)
  with assms show ?thesis by (simp add: one_hop_def)
next
  case (Inr res)
  obtain r tr1 s1 where res: "res = (r, tr1, s1)" by (cases res)
  from query_servers_shape[OF Inr[unfolded res]] obtain j where
    tr1: "tr1 = tr @ map (timeout_entry k) (take j act)" by blast
  have t1: "\<forall>e\<in>set (map (timeout_entry k) (take j act)). stage_entry k e"
    by (auto simp: stage_entry_timeout)
  show ?thesis
  proof (cases r)
    case None
    with assms Inr res have "tr2 = tr1" by (simp add: one_hop_def)
    with tr1 t1 show ?thesis by blast
  next
    case (Some a)
    obtain srv d t where a: "a = (srv, d, t)" by (cases a)
    show ?thesis
    proof (cases "parse w d")
      case None
      with assms Inr res Some a show ?thesis by (simp add: one_hop_def)
    next
      case (Some m)
      have "tr2 = tr1 @ [reply_entry k srv t m]"
        using assms Inr res \<open>r = Some a\<close> a Some
        by (simp add: one_hop_def Let_def split: if_splits)
      then have "tr2 = tr @ (map (timeout_entry k) (take j act) @ [reply_entry k srv t m])"
        using tr1 by simp
      moreover have "\<forall>e\<in>set (map (timeout_entry k) (take j act) @ [reply_entry k srv t m]). stage_entry k e"
        using t1 by (auto simp: stage_entry_reply)
      ultimately show ?thesis by blast
    qed
  qed
qed

lemma extends_trans:
  "\<exists>t. b = a @ t \<and> (\<forall>e\<in>set t. P e) \<Longrightarrow> \<exists>t. c = b @ t \<and> (\<forall>e\<in>set t. P e) \<Longrightarrow>
   \<exists>t. c = a @ t \<and> (\<forall>e\<in>set t. P e)"
  by (metis UnE append.assoc set_append)

lemma traces_extend:
  "(lookup_loop n w s rq k act tr = Some (Inr (r, tr', s')) \<longrightarrow>
      (\<exists>t. tr' = tr @ t \<and> (\<forall>e\<in>set t. made_entry e)))"
  "(resolve_names n w s names tr ips = Some (Inr (ips', tr', s')) \<longrightarrow>
      (\<exists>t. tr' = tr @ t \<and> (\<forall>e\<in>set t. made_entry e)))"
  "(hierarchical_lookup n w s rq = Some (Inr (r, tr', nm, s')) \<longrightarrow>
      (\<forall>e\<in>set tr'. made_entry e))"
proof (induction n w s rq k act tr and n w s names tr ips and n w s rq
       arbitrary: r tr' s' and ips' tr' s' and r tr' nm s'
       rule: lookup_loop_resolve_names_hierarchical_lookup.induct)
  case (1 w s request_bytes lookup_step active_servers trace_info)
  then show ?case by (simp add: lookup_loop.simps)
next
  case (2 fuel w s rq k act tr)
  show ?case
  proof
    assume run: "lookup_loop (Suc fuel) w s rq k act tr = Some (Inr (r, tr', s'))"
    show "\<exists>t. tr' = tr @ t \<and> (\<forall>e\<in>set t. made_entry e)"
    proof (cases "one_hop w s rq (k + 1) act tr")
      case (Raised e)
      with run show ?thesis by (simp add: lookup_loop.simps)
    next
      case (Finished r2 tr2 s2)
      with one_hop_extends[of w s rq "k + 1" act tr tr2]
      have "\<exists>t. tr2 = tr @ t \<and> (\<forall>e\<in>set t. made_entry e)"
        by (auto simp: made_entry_def)
      with run Finished show ?thesis by (simp add: lookup_loop.simps)
    next
      case (Glue ips tr2 s2)
      with one_hop_extends[of w s rq "k + 1" act tr tr2]
      have a: "\<exists>t. tr2 = tr @ t \<and> (\<forall>e\<in>set t. made_entry e)"
        by (auto simp: made_entry_def)
      from run Glue have "lookup_loop fuel w s2 rq (k + 1) ips tr2 = Some (Inr (r, tr', s'))"
        by (simp add: lookup_loop.simps)
      with "2.IH"(1)[OF Glue] have "\<exists>t. tr' = tr2 @ t \<and> (\<forall>e\<in>set t. made_entry e)" by blast
      with a show ?thesis by (rule extends_trans)
    next
      case (Names ns tr2 s2)
      with one_hop_extends[of w s rq "k + 1" act tr tr2]
      have a: "\<exists>t. tr2 = tr @ t \<and> (\<forall>e\<in>set t. made_entry e)"
        by (auto simp: made_entry_def)
      from run Names obtain ips tr3 s3 where
        rn: "resolve_names fuel w s2 ns tr2 [] = Some (Inr (ips, tr3, s3))"
        and rest: "if ips = [] then r = None \<and> tr' = tr3 \<and> s' = s3
                   else lookup_loop fuel w s3 rq (k + 1) ips tr3 = Some (Inr (r, tr', s'))"
        by (auto simp: lookup_loop.simps split: option.splits sum.splits if_splits)
      from "2.IH"(2)[OF Names] rn
      have b: "\<exists>t. tr3 = tr2 @ t \<and> (\<forall>e\<in>set t. made_entry e)" by blast
      have c: "\<exists>t. tr' = tr3 @ t \<and> (\<forall>e\<in>set t. made_entry e)"
      proof (cases "ips = []")
        case True
        with rest show ?thesis by simp
      next
        case False
        with rest "2.IH"(3)[OF Names rn refl refl refl False] show ?thesis by simp
      qed
      from extends_trans[OF a b] c show ?thesis by (rule extends_trans)
    qed
  qed
next
  case (3 fuel w s trace_info next_server_ips)
  then show ?case by (simp add: resolve_names.simps)
next
  case (4 fuel w s server_name rest tr ips)
  show ?case
  proof
    assume run: "resolve_names fuel w s (server_name # rest) tr ips = Some (Inr (ips', tr', s'))"
    then obtain q resp t1 nm s1 ips1 where
      q: "question w server_name = Some q"
      and hl: "hierarchical_lookup fuel w s q = Some (Inr (resp, t1, nm, s1))"
      and co: "collect w resp ips = Inr ips1"
      and rn: "resolve_names fuel w s1 rest (tr @ t1) ips1 = Some (Inr (ips', tr', s'))"
      by (auto simp: resolve_names.simps split: option.splits sum.splits)
    from "4.IH"(1)[OF q] hl have a: "\<forall>e\<in>set t1. made_entry e" by blast
    from "4.IH"(2)[OF q hl refl refl refl refl co] rn
    have "\<exists>t. tr' = (tr @ t1) @ t \<and> (\<forall>e\<in>set t. made_entry e)" by blast
    with a show "\<exists>t. tr' = tr @ t \<and> (\<forall>e\<in>set t. made_entry e)"
      by (metis UnE append.assoc set_append)
  qed
next
  case (5 fuel w s rq)
  show ?case
  proof
    assume run: "hierarchical_lookup fuel w s rq = Some (Inr (r, tr', nm, s'))"
    then obtain m where m: "parse w rq = Some m"
      and ll: "lookup_loop fuel w s rq 0 NAME_SERVERS [] = Some (Inr (r, tr', s'))"
      by (auto simp: hierarchical_lookup.simps split: option.splits sum.splits)
    from "5.IH"[OF m] ll show "\<forall>e\<in>set tr'. made_entry e" by auto
  qed
qed

subsection \<open>Fuel only bounds the run\<close>

text \<open>
  A result, once returned, does not depend on the fuel: more fuel gives the same result.
\<close>

lemma more_fuel_Suc:
  "lookup_loop n w s rq k act tr = Some r1 \<longrightarrow> lookup_loop (Suc n) w s rq k act tr = Some r1"
  "resolve_names n w s names tr ips = Some r2 \<longrightarrow>
     resolve_names (Suc n) w s names tr ips = Some r2"
  "hierarchical_lookup n w s rq = Some r3 \<longrightarrow> hierarchical_lookup (Suc n) w s rq = Some r3"
proof (induction n w s rq k act tr and n w s names tr ips and n w s rq
       arbitrary: r1 and r2 and r3
       rule: lookup_loop_resolve_names_hierarchical_lookup.induct)
  case (1 w s request_bytes lookup_step active_servers trace_info)
  then show ?case by (simp add: lookup_loop.simps)
next
  case (2 fuel w s rq k act tr)
  show ?case
  proof
    assume run: "lookup_loop (Suc fuel) w s rq k act tr = Some r1"
    show "lookup_loop (Suc (Suc fuel)) w s rq k act tr = Some r1"
    proof (cases "one_hop w s rq (k + 1) act tr")
      case (Raised e)
      with run show ?thesis by (simp add: lookup_loop.simps)
    next
      case (Finished r2 tr2 s2)
      with run show ?thesis by (simp add: lookup_loop.simps)
    next
      case (Glue ips tr2 s2)
      with run have "lookup_loop fuel w s2 rq (k + 1) ips tr2 = Some r1"
        by (simp add: lookup_loop.simps)
      with "2.IH"(1)[OF Glue] have "lookup_loop (Suc fuel) w s2 rq (k + 1) ips tr2 = Some r1"
        by blast
      with Glue show ?thesis by (subst lookup_loop.simps) simp
    next
      case (Names ns tr2 s2)
      with run obtain x where rn: "resolve_names fuel w s2 ns tr2 [] = Some x"
        by (auto simp: lookup_loop.simps split: option.splits)
      with "2.IH"(2)[OF Names] have rn': "resolve_names (Suc fuel) w s2 ns tr2 [] = Some x"
        by blast
      show ?thesis
      proof (cases x)
        case (Inl e)
        with run Names rn rn' show ?thesis by (subst lookup_loop.simps) (simp add: lookup_loop.simps)
      next
        case (Inr b)
        obtain ips tr3 s3 where b: "b = (ips, tr3, s3)" by (cases b)
        show ?thesis
        proof (cases "ips = []")
          case True
          with run Names rn rn' Inr b show ?thesis
            by (subst lookup_loop.simps) (simp add: lookup_loop.simps)
        next
          case False
          with run Names rn Inr b have "lookup_loop fuel w s3 rq (k + 1) ips tr3 = Some r1"
            by (simp add: lookup_loop.simps)
          with "2.IH"(3)[OF Names rn Inr b[symmetric] refl False]
          have "lookup_loop (Suc fuel) w s3 rq (k + 1) ips tr3 = Some r1" by blast
          with Names rn' Inr b False show ?thesis by (subst lookup_loop.simps) simp
        qed
      qed
    qed
  qed
next
  case (3 fuel w s trace_info next_server_ips)
  then show ?case by (simp add: resolve_names.simps)
next
  case (4 fuel w s server_name rest tr ips)
  show ?case
  proof
    assume run: "resolve_names fuel w s (server_name # rest) tr ips = Some r2"
    show "resolve_names (Suc fuel) w s (server_name # rest) tr ips = Some r2"
    proof (cases "question w server_name")
      case None
      with run show ?thesis by (simp add: resolve_names.simps)
    next
      case (Some q)
      with run obtain x where hl: "hierarchical_lookup fuel w s q = Some x"
        by (auto simp: resolve_names.simps split: option.splits)
      with "4.IH"(1)[OF Some] have hl': "hierarchical_lookup (Suc fuel) w s q = Some x" by blast
      show ?thesis
      proof (cases x)
        case (Inl e)
        with run Some hl hl' show ?thesis by (simp add: resolve_names.simps)
      next
        case (Inr b)
        obtain resp t1 nm s1 where b: "b = (resp, t1, nm, s1)" by (cases b)
        show ?thesis
        proof (cases "collect w resp ips")
          case (Inl e)
          with run Some hl hl' Inr b show ?thesis by (simp add: resolve_names.simps)
        next
          case (Inr ips1)
          with run Some hl \<open>x = Inr b\<close> b
          have "resolve_names fuel w s1 rest (tr @ t1) ips1 = Some r2"
            by (simp add: resolve_names.simps)
          with "4.IH"(2)[OF Some hl \<open>x = Inr b\<close> _ _ _ Inr, of "(t1, nm, s1)" t1 "(nm, s1)" nm s1] b
          have "resolve_names (Suc fuel) w s1 rest (tr @ t1) ips1 = Some r2" by simp
          with Some hl' \<open>x = Inr b\<close> b Inr show ?thesis by (simp add: resolve_names.simps)
        qed
      qed
    qed
  qed
next
  case (5 fuel w s rq)
  show ?case
  proof
    assume run: "hierarchical_lookup fuel w s rq = Some r3"
    show "hierarchical_lookup (Suc fuel) w s rq = Some r3"
    proof (cases "parse w rq")
      case None
      with run show ?thesis by (simp add: hierarchical_lookup.simps)
    next
      case (Some m)
      with run obtain x where ll: "lookup_loop fuel w s rq 0 NAME_SERVERS [] = Some x"
        by (auto simp: hierarchical_lookup.simps split: option.splits)
      with "5.IH"[OF Some] have "lookup_loop (Suc fuel) w s rq 0 NAME_SERVERS [] = Some x"
        by blast
      with run Some ll show ?thesis by (simp add: hierarchical_lookup.simps)
    qed
  qed
qed

lemma more_fuel:
  "hierarchical_lookup n w s rq = Some r \<Longrightarrow> hierarchical_lookup (n + d) w s rq = Some r"
  by (induction d) (simp_all add: more_fuel_Suc(3)[rule_format])

subsection \<open>What the entries of a trace look like\<close>

lemma phase_cases:
  "phase k m = ''Root'' \<or> phase k m = ''TLD'' \<or> phase k m = ''Authoritative''"
  by (simp add: phase_def)

lemma phase_not_timeout: "phase k m \<noteq> ''Timeout''"
  by (simp add: phase_def)

lemma made_entry_fields:
  assumes "made_entry e"
  shows "(rtt e = None \<longleftrightarrow> stage e = ''Timeout'')" and "mode e = ''Iterative''"
    and "1 \<le> step e" and "stage e \<in> {''Root'', ''TLD'', ''Authoritative'', ''Timeout''}"
proof -
  from assms obtain k where k: "1 \<le> k" "stage_entry k e" by (auto simp: made_entry_def)
  then consider srv where "e = timeout_entry k srv" | srv t m where "e = reply_entry k srv t m"
    by (auto simp: stage_entry_def)
  then have "((rtt e = None \<longleftrightarrow> stage e = ''Timeout'') \<and> mode e = ''Iterative'') \<and>
      1 \<le> step e \<and> stage e \<in> {''Root'', ''TLD'', ''Authoritative'', ''Timeout''}"
  proof cases
    case 1
    with k show ?thesis by (simp add: timeout_entry_def)
  next
    case 2
    with k phase_cases[of k m] phase_not_timeout[of k m] show ?thesis
      by (simp add: reply_entry_def)
  qed
  then show "(rtt e = None \<longleftrightarrow> stage e = ''Timeout'')" and "mode e = ''Iterative''"
    and "1 \<le> step e" and "stage e \<in> {''Root'', ''TLD'', ''Authoritative'', ''Timeout''}"
    by simp_all
qed

lemma lookup_loop_after_hop:
  assumes "lookup_loop (Suc n) w s rq k act tr = Some (Inr (r, tr', s'))"
  shows "\<exists>tr2 t. hop_trace (one_hop w s rq (k + 1) act tr) = Some tr2 \<and> tr' = tr2 @ t \<and>
           (\<forall>e\<in>set t. made_entry e)"
proof (cases "one_hop w s rq (k + 1) act tr")
  case (Raised e)
  with assms show ?thesis by (simp add: lookup_loop.simps)
next
  case (Finished r2 tr2 s2)
  with assms show ?thesis by (simp add: lookup_loop.simps)
next
  case (Glue ips tr2 s2)
  with assms have "lookup_loop n w s2 rq (k + 1) ips tr2 = Some (Inr (r, tr', s'))"
    by (simp add: lookup_loop.simps)
  from traces_extend(1)[rule_format, OF this] Glue show ?thesis by simp
next
  case (Names ns tr2 s2)
  with assms obtain ips tr3 s3 where
    rn: "resolve_names n w s2 ns tr2 [] = Some (Inr (ips, tr3, s3))"
    and rest: "if ips = [] then r = None \<and> tr' = tr3 \<and> s' = s3
               else lookup_loop n w s3 rq (k + 1) ips tr3 = Some (Inr (r, tr', s'))"
    by (auto simp: lookup_loop.simps split: option.splits sum.splits if_splits)
  from traces_extend(2)[rule_format, OF rn]
  have b: "\<exists>t. tr3 = tr2 @ t \<and> (\<forall>e\<in>set t. made_entry e)" .
  have c: "\<exists>t. tr' = tr3 @ t \<and> (\<forall>e\<in>set t. made_entry e)"
  proof (cases "ips = []")
    case True
    with rest show ?thesis by simp
  next
    case False
    with rest traces_extend(1)[rule_format, of n w s3 rq "k + 1" ips tr3 r tr' s']
    show ?thesis by simp
  qed
  from extends_trans[OF b c] Names show ?thesis by simp
qed

lemma one_hop_reply:
  assumes "query_servers w s rq k act tr = Inr (Some (srv, d, t), tr1, s1)"
    and "parse w d = Some m"
  shows "hop_trace (one_hop w s rq k act tr) = Some (tr1 @ [reply_entry k srv t m])"
  using assms by (simp add: one_hop_def Let_def)

text \<open>
  C10. In every trace that \<^verbatim>\<open>hierarchical_lookup\<close> returns, an entry's \<open>rtt\<close> is
  \<open>None\<close> exactly when its stage is \<open>Timeout\<close>, and its mode is always the
  string \<open>Iterative\<close>.
\<close>

theorem trace_rtt_and_mode:
  assumes "hierarchical_lookup fuel w s request_bytes =
             Some (Inr (final_response, trace_info, target_name, s'))"
  shows "\<forall>e\<in>set trace_info. (rtt e = None \<longleftrightarrow> stage e = ''Timeout'') \<and> mode e = ''Iterative''"
  using traces_extend(3)[rule_format, OF assms] made_entry_fields(1,2) by blast

text \<open>The lookup of \<open>example.com.\<close> in the small network.\<close>

lemma demo_run:
  "hierarchical_lookup 3 demo_world () [1] =
     Some (Inr (Some [12],
       [timeout_entry 1 ''198.41.0.4'',
        reply_entry 1 ''199.9.14.201'' 1250 root_referral,
        reply_entry 2 ''192.5.6.30'' 2034 tld_referral,
        reply_entry 3 ''199.43.135.53'' 987 final_answer], ''example.com.'', ()))"
  by code_simp

theorem trace_rtt_and_mode_witness:
  "hierarchical_lookup 3 demo_world () [1] =
     Some (Inr (Some [12],
       [timeout_entry 1 ''198.41.0.4'',
        reply_entry 1 ''199.9.14.201'' 1250 root_referral,
        reply_entry 2 ''192.5.6.30'' 2034 tld_referral,
        reply_entry 3 ''199.43.135.53'' 987 final_answer], ''example.com.'', ())) \<and>
   rtt (timeout_entry 1 ''198.41.0.4'') = None \<and>
   stage (timeout_entry 1 ''198.41.0.4'') = ''Timeout'' \<and>
   mode (timeout_entry 1 ''198.41.0.4'') = ''Iterative'' \<and>
   rtt (reply_entry 3 ''199.43.135.53'' 987 final_answer) = Some 987 \<and>
   stage (reply_entry 3 ''199.43.135.53'' 987 final_answer) = ''Authoritative'' \<and>
   mode (reply_entry 3 ''199.43.135.53'' 987 final_answer) = ''Iterative''"
  using trace_rtt_and_mode[OF demo_run] demo_run
  by (simp add: timeout_entry_def reply_entry_def phase_def final_answer_def)

text \<open>
  C8. When a stage of the loop receives a reply that decodes, the entry appended for it
  right after that stage's timeouts carries the stage's step counter, and its stage is
  \<open>Root\<close> exactly when that counter is 1; otherwise it is \<open>TLD\<close> exactly when the
  reply has at least one authority record and no answer record; otherwise it is
  \<open>Authoritative\<close>.
\<close>

theorem stage_classification:
  assumes "query_servers w s request_bytes (lookup_step + 1) active_servers trace_info =
             Inr (Some (contacted_server, reply_data, response_time), trace1, s1)"
    and "parse w reply_data = Some parsed_reply"
    and "lookup_loop (Suc fuel) w s request_bytes lookup_step active_servers trace_info =
             Some (Inr (final_response, trace', s'))"
  shows "\<exists>e rest. trace' = trace1 @ e # rest \<and>
           step e = lookup_step + 1 \<and> server e = contacted_server \<and>
           (stage e = ''Root'' \<longleftrightarrow> step e = 1) \<and>
           (step e \<noteq> 1 \<longrightarrow>
              (stage e = ''TLD'' \<longleftrightarrow> auth parsed_reply \<noteq> [] \<and> rr parsed_reply = [])) \<and>
           (step e \<noteq> 1 \<and> \<not> (auth parsed_reply \<noteq> [] \<and> rr parsed_reply = []) \<longrightarrow>
              stage e = ''Authoritative'')"
proof -
  let ?e = "reply_entry (lookup_step + 1) contacted_server response_time parsed_reply"
  from lookup_loop_after_hop[OF assms(3)] one_hop_reply[OF assms(1,2)]
  obtain t where "trace' = (trace1 @ [?e]) @ t" by auto
  then have "trace' = trace1 @ ?e # t" by simp
  moreover have "step ?e = lookup_step + 1" "server ?e = contacted_server"
    by (simp_all add: reply_entry_def)
  moreover have "stage ?e = ''Root'' \<longleftrightarrow> step ?e = 1"
    by (simp add: reply_entry_def phase_def)
  moreover have "step ?e \<noteq> 1 \<longrightarrow>
      (stage ?e = ''TLD'' \<longleftrightarrow> auth parsed_reply \<noteq> [] \<and> rr parsed_reply = [])"
    by (simp add: reply_entry_def phase_def)
  moreover have "step ?e \<noteq> 1 \<and> \<not> (auth parsed_reply \<noteq> [] \<and> rr parsed_reply = []) \<longrightarrow>
      stage ?e = ''Authoritative''"
    by (auto simp add: reply_entry_def phase_def)
  ultimately show ?thesis by blast
qed


theorem stage_classification_witness:
  "query_servers demo_world () [1] (1 + 1) [''192.5.6.30''] [] =
     Inr (Some (''192.5.6.30'', [11], 2034), [], ()) \<and>
   parse demo_world [11] = Some tld_referral \<and>
   lookup_loop (Suc 1) demo_world () [1] 1 [''192.5.6.30''] [] =
     Some (Inr (Some [12], [reply_entry 2 ''192.5.6.30'' 2034 tld_referral,
                             reply_entry 3 ''199.43.135.53'' 987 final_answer], ())) \<and>
   (\<exists>e rest. [reply_entry 2 ''192.5.6.30'' 2034 tld_referral,
               reply_entry 3 ''199.43.135.53'' 987 final_answer] = [] @ e # rest \<and>
      step e = 1 + 1 \<and> server e = ''192.5.6.30'' \<and>
      (stage e = ''Root'' \<longleftrightarrow> step e = 1) \<and>
      (step e \<noteq> 1 \<longrightarrow>
         (stage e = ''TLD'' \<longleftrightarrow> auth tld_referral \<noteq> [] \<and> rr tld_referral = [])) \<and>
      (step e \<noteq> 1 \<and> \<not> (auth tld_referral \<noteq> [] \<and> rr tld_referral = []) \<longrightarrow>
         stage e = ''Authoritative''))"
proof -
  have h1: "query_servers demo_world () [1] (1 + 1) [''192.5.6.30''] [] =
     Inr (Some (''192.5.6.30'', [11], 2034), [], ())"
    by code_simp
  have h2: "parse demo_world [11] = Some tld_referral"
    by code_simp
  have h3: "lookup_loop (Suc 1) demo_world () [1] 1 [''192.5.6.30''] [] =
     Some (Inr (Some [12], [reply_entry 2 ''192.5.6.30'' 2034 tld_referral,
                             reply_entry 3 ''199.43.135.53'' 987 final_answer], ()))"
    by code_simp
  show ?thesis
    by (intro conjI h1 h2 h3 stage_classification[OF h1 h2 h3])
qed

text \<open>
  C3, as the code has it. When every server of a stage times out, the lookup ends
  without a final response: it returns \<^verbatim>\<open>None\<close> in its tuple, the one value with which
  \<^verbatim>\<open>hierarchical_lookup\<close> reports any failure (the code has no error kinds, so no
  \<open>NoServerResponded\<close>). The stage has then added exactly one entry per server, in the
  order in which the servers were tried, each with the stage \<open>Timeout\<close>, the server
  tried, the stage's step and no round-trip time. When some server replies, the servers
  before it have each added one such entry, and the reply of the first server that
  answers is the one taken: its entry follows, with that server and its round-trip time,
  and when it carries answer records it is the final response.
\<close>

theorem timeouts_in_a_stage:
  assumes "timed_out = (\<lambda>name_server.
             \<lparr>step = lookup_step + 1, mode = ''Iterative'', stage = ''Timeout'',
              server = name_server, rtt = None, response = [''No response (timeout)'']\<rparr>)"
  shows
  "((\<forall>r\<in>set (attempts w s request_bytes active_servers). r = TimedOut) \<longrightarrow>
      (\<exists>s'. lookup_loop (Suc fuel) w s request_bytes lookup_step active_servers trace_info =
         Some (Inr (None, trace_info @ map timed_out active_servers, s')))) \<and>
   (attempts w s request_bytes active_servers = replicate j TimedOut @ Reply d t # later \<longrightarrow>
      (\<exists>s1. query_servers w s request_bytes (lookup_step + 1) active_servers trace_info =
         Inr (Some (active_servers ! j, d, t),
              trace_info @ map timed_out (take j active_servers), s1)) \<and>
      (\<forall>m final_response trace' s'.
         parse w d = Some m \<and>
         lookup_loop (Suc fuel) w s request_bytes lookup_step active_servers trace_info =
           Some (Inr (final_response, trace', s')) \<longrightarrow>
         (\<exists>e rest. trace' = trace_info @ map timed_out (take j active_servers) @ e # rest \<and>
            step e = lookup_step + 1 \<and> server e = active_servers ! j \<and>
            rtt e = Some t \<and> stage e \<noteq> ''Timeout'' \<and>
            (rr m \<noteq> [] \<longrightarrow> final_response = Some d \<and> rest = []))))"
proof (intro conjI impI)
  have to: "timed_out = timeout_entry (lookup_step + 1)"
    unfolding assms by (rule ext) (simp add: timeout_entry_def)
  {
    assume "\<forall>r\<in>set (attempts w s request_bytes active_servers). r = TimedOut"
    from query_servers_all_timeout[OF this, of "lookup_step + 1" trace_info]
    obtain s' where "query_servers w s request_bytes (lookup_step + 1) active_servers trace_info =
        Inr (None, trace_info @ map timed_out active_servers, s')"
      unfolding to by blast
    then have "lookup_loop (Suc fuel) w s request_bytes lookup_step active_servers trace_info =
        Some (Inr (None, trace_info @ map timed_out active_servers, s'))"
      by (simp add: lookup_loop.simps one_hop_def)
    then show "\<exists>s'. lookup_loop (Suc fuel) w s request_bytes lookup_step active_servers trace_info =
        Some (Inr (None, trace_info @ map timed_out active_servers, s'))"
      by blast
  next
    assume a: "attempts w s request_bytes active_servers = replicate j TimedOut @ Reply d t # later"
    from query_servers_first_reply[OF a, of "lookup_step + 1" trace_info]
    show "\<exists>s1. query_servers w s request_bytes (lookup_step + 1) active_servers trace_info =
           Inr (Some (active_servers ! j, d, t),
                trace_info @ map timed_out (take j active_servers), s1)"
      unfolding to .
  next
    assume a: "attempts w s request_bytes active_servers = replicate j TimedOut @ Reply d t # later"
    from query_servers_first_reply[OF a, of "lookup_step + 1" trace_info]
    obtain s1 where qs: "query_servers w s request_bytes (lookup_step + 1) active_servers trace_info =
           Inr (Some (active_servers ! j, d, t),
                trace_info @ map timed_out (take j active_servers), s1)"
      unfolding to by blast
    show "\<forall>m final_response trace' s'.
           parse w d = Some m \<and>
           lookup_loop (Suc fuel) w s request_bytes lookup_step active_servers trace_info =
             Some (Inr (final_response, trace', s')) \<longrightarrow>
           (\<exists>e rest. trace' = trace_info @ map timed_out (take j active_servers) @ e # rest \<and>
              step e = lookup_step + 1 \<and> server e = active_servers ! j \<and>
              rtt e = Some t \<and> stage e \<noteq> ''Timeout'' \<and>
              (rr m \<noteq> [] \<longrightarrow> final_response = Some d \<and> rest = []))"
    proof (intro allI impI, elim conjE)
      fix m final_response trace' s'
      assume p: "parse w d = Some m"
        and run: "lookup_loop (Suc fuel) w s request_bytes lookup_step active_servers trace_info =
             Some (Inr (final_response, trace', s'))"
      let ?e = "reply_entry (lookup_step + 1) (active_servers ! j) t m"
      let ?pre = "trace_info @ map timed_out (take j active_servers)"
      from lookup_loop_after_hop[OF run] one_hop_reply[OF qs p]
      obtain rest where tr: "trace' = (?pre @ [?e]) @ rest"
        by auto
      have fields: "step ?e = lookup_step + 1" "server ?e = active_servers ! j"
        "rtt ?e = Some t" "stage ?e \<noteq> ''Timeout''"
        using phase_not_timeout[of "lookup_step + 1" m] by (simp_all add: reply_entry_def)
      have "rr m \<noteq> [] \<longrightarrow> final_response = Some d \<and> rest = []"
      proof
        assume "rr m \<noteq> []"
        with qs p have "one_hop w s request_bytes (lookup_step + 1) active_servers trace_info =
            Finished (Some d) (?pre @ [?e]) s1"
          by (simp add: one_hop_def Let_def)
        then have "lookup_loop (Suc fuel) w s request_bytes lookup_step active_servers trace_info =
            Some (Inr (Some d, ?pre @ [?e], s1))"
          by (simp only: lookup_loop.simps hop.case)
        with run tr show "final_response = Some d \<and> rest = []" by simp
      qed
      with tr fields show "\<exists>e rest. trace' = trace_info @ map timed_out (take j active_servers) @ e # rest \<and>
              step e = lookup_step + 1 \<and> server e = active_servers ! j \<and>
              rtt e = Some t \<and> stage e \<noteq> ''Timeout'' \<and>
              (rr m \<noteq> [] \<longrightarrow> final_response = Some d \<and> rest = [])"
        by (intro exI[of _ ?e] exI[of _ rest]) simp
    qed
  }
qed

theorem timeouts_in_a_stage_witness:
  "attempts dead_world () [1] NAME_SERVERS = [TimedOut, TimedOut, TimedOut] \<and>
   lookup_loop (Suc 0) dead_world () [1] 0 NAME_SERVERS [] =
     Some (Inr (None,
       [\<lparr>step = 1, mode = ''Iterative'', stage = ''Timeout'', server = ''198.41.0.4'',
          rtt = None, response = [''No response (timeout)'']\<rparr>,
        \<lparr>step = 1, mode = ''Iterative'', stage = ''Timeout'', server = ''199.9.14.201'',
          rtt = None, response = [''No response (timeout)'']\<rparr>,
        \<lparr>step = 1, mode = ''Iterative'', stage = ''Timeout'', server = ''192.33.4.12'',
          rtt = None, response = [''No response (timeout)'']\<rparr>], ())) \<and>
   attempts demo_world () [1] NAME_SERVERS = [TimedOut, Reply [10] 1250, TimedOut] \<and>
   query_servers demo_world () [1] 1 NAME_SERVERS [] =
     Inr (Some (''199.9.14.201'', [10], 1250),
       [\<lparr>step = 1, mode = ''Iterative'', stage = ''Timeout'', server = ''198.41.0.4'',
          rtt = None, response = [''No response (timeout)'']\<rparr>], ())"
proof -
  let ?to = "\<lambda>name_server.
             \<lparr>step = 0 + 1, mode = ''Iterative'', stage = ''Timeout'',
              server = name_server, rtt = None, response = [''No response (timeout)'']\<rparr>"
  have a1: "attempts dead_world () [1] NAME_SERVERS = [TimedOut, TimedOut, TimedOut]"
    by code_simp
  then have h1: "\<forall>r\<in>set (attempts dead_world () [1] NAME_SERVERS). r = TimedOut"
    by simp
  have a2: "attempts demo_world () [1] NAME_SERVERS = [TimedOut, Reply [10] 1250, TimedOut]"
    by code_simp
  then have h2: "attempts demo_world () [1] NAME_SERVERS =
      replicate 1 TimedOut @ Reply [10] 1250 # [TimedOut]"
    by simp
  from timeouts_in_a_stage[where timed_out = ?to and lookup_step = 0 and w = dead_world
      and s = "()" and request_bytes = "[1]" and active_servers = NAME_SERVERS and fuel = 0
      and trace_info = "[]", OF refl, THEN conjunct1, THEN mp, OF h1]
  have c1: "lookup_loop (Suc 0) dead_world () [1] 0 NAME_SERVERS [] =
     Some (Inr (None,
       [\<lparr>step = 1, mode = ''Iterative'', stage = ''Timeout'', server = ''198.41.0.4'',
          rtt = None, response = [''No response (timeout)'']\<rparr>,
        \<lparr>step = 1, mode = ''Iterative'', stage = ''Timeout'', server = ''199.9.14.201'',
          rtt = None, response = [''No response (timeout)'']\<rparr>,
        \<lparr>step = 1, mode = ''Iterative'', stage = ''Timeout'', server = ''192.33.4.12'',
          rtt = None, response = [''No response (timeout)'']\<rparr>], ()))"
    by (simp add: NAME_SERVERS_def)
  from timeouts_in_a_stage[where timed_out = ?to and lookup_step = 0 and w = demo_world
      and s = "()" and request_bytes = "[1]" and active_servers = NAME_SERVERS and fuel = 0
      and trace_info = "[]" and j = 1 and d = "[10]" and t = 1250 and later = "[TimedOut]",
      OF refl, THEN conjunct2, THEN mp, OF h2, THEN conjunct1]
  have c2: "query_servers demo_world () [1] 1 NAME_SERVERS [] =
     Inr (Some (''199.9.14.201'', [10], 1250),
       [\<lparr>step = 1, mode = ''Iterative'', stage = ''Timeout'', server = ''198.41.0.4'',
          rtt = None, response = [''No response (timeout)'']\<rparr>], ())"
    by (simp add: NAME_SERVERS_def)
  from a1 c1 a2 c2 show ?thesis by blast
qed

text \<open>
  The claim fails where it names the failure. When all three root servers time out, the
  lookup raises nothing and returns no error of a kind: it returns its tuple with
  \<^verbatim>\<open>None\<close> as the final response, as it does in the network whose root server answers
  with an empty message, where the lookup ends for want of a server to ask next.
\<close>

theorem all_timeouts_counterexample:
  "attempts dead_world () [1] NAME_SERVERS = [TimedOut, TimedOut, TimedOut] \<and>
   hierarchical_lookup 1 dead_world () [1] =
     Some (Inr (None,
       [timeout_entry 1 ''198.41.0.4'', timeout_entry 1 ''199.9.14.201'',
        timeout_entry 1 ''192.33.4.12''], ''example.com.'', ())) \<and>
   hierarchical_lookup 1 lame_world 0 [2] =
     Some (Inr (None, [reply_entry 1 ''198.41.0.4'' 700 empty_reply], ''example.org.'', 1))"
  by code_simp

subsection \<open>Nested lookups\<close>

lemma one_hop_Finished_Some:
  assumes "one_hop w s rq k act tr = Finished (Some b) tr2 s2"
  shows "\<exists>m. parse w b = Some m \<and> rr m \<noteq> []"
  using assms
  by (auto simp: one_hop_def Let_def split: sum.splits option.splits prod.splits if_splits)

lemma lookup_loop_response_decodes:
  "lookup_loop n w s rq k act tr = Some (Inr (Some b, tr', s')) \<Longrightarrow>
   \<exists>m. parse w b = Some m \<and> rr m \<noteq> []"
proof (induction n arbitrary: s k act tr)
  case 0
  then show ?case by (simp add: lookup_loop.simps)
next
  case (Suc n)
  show ?case
  proof (cases "one_hop w s rq (k + 1) act tr")
    case (Raised e)
    with Suc.prems show ?thesis by (simp add: lookup_loop.simps)
  next
    case (Finished r2 tr2 s2)
    with Suc.prems have "r2 = Some b" by (simp add: lookup_loop.simps)
    with Finished have "one_hop w s rq (k + 1) act tr = Finished (Some b) tr2 s2" by simp
    then show ?thesis by (rule one_hop_Finished_Some)
  next
    case (Glue ips tr2 s2)
    with Suc.prems Suc.IH show ?thesis by (simp add: lookup_loop.simps)
  next
    case (Names ns tr2 s2)
    with Suc.prems Suc.IH show ?thesis
      by (auto simp: lookup_loop.simps split: option.splits sum.splits if_splits)
  qed
qed

lemma hierarchical_lookup_response_decodes:
  assumes "hierarchical_lookup n w s rq = Some (Inr (Some b, tr, nm, s'))"
  shows "\<exists>m. parse w b = Some m \<and> rr m \<noteq> []"
proof -
  from assms have "lookup_loop n w s rq 0 NAME_SERVERS [] = Some (Inr (Some b, tr, s'))"
    by (auto simp: hierarchical_lookup.simps split: option.splits sum.splits)
  then show ?thesis by (rule lookup_loop_response_decodes)
qed

lemma collect_reply_ips:
  assumes "hierarchical_lookup n w s rq = Some (Inr (resp, tr, nm, s'))"
  shows "collect w resp ips = Inr (ips @ reply_ips w resp)"
proof (cases resp)
  case None
  then show ?thesis by (simp add: collect_def reply_ips_def)
next
  case (Some b)
  with assms have "hierarchical_lookup n w s rq = Some (Inr (Some b, tr, nm, s'))" by simp
  from hierarchical_lookup_response_decodes[OF this] obtain m where "parse w b = Some m" by blast
  with Some show ?thesis by (simp add: collect_def reply_ips_def answer_ips_def)
qed

lemma length_nested_lookups: "length (nested_lookups n w s names) \<le> length names"
  by (induction names arbitrary: s) (auto split: option.splits sum.splits)

lemma resolve_names_nested:
  assumes "length (nested_lookups n w s names) = length names"
  shows "resolve_names n w s names tr ips =
     Some (Inr (ips @ concat (map (reply_ips w \<circ> fst) (nested_lookups n w s names)),
                tr @ concat (map (fst \<circ> snd) (nested_lookups n w s names)),
                state_after s (nested_lookups n w s names)))"
  using assms
proof (induction names arbitrary: s tr ips)
  case Nil
  then show ?case by (simp add: resolve_names.simps state_after_def)
next
  case (Cons name rest)
  from Cons.prems obtain q where q: "question w name = Some q"
    by (auto split: option.splits)
  with Cons.prems obtain resp t1 nm s1 where
    hl: "hierarchical_lookup n w s q = Some (Inr (resp, t1, nm, s1))"
    by (auto split: option.splits sum.splits)
  with q have nl: "nested_lookups n w s (name # rest) = (resp, t1, s1) # nested_lookups n w s1 rest"
    by simp
  with Cons.prems have len: "length (nested_lookups n w s1 rest) = length rest" by simp
  have st: "state_after s ((resp, t1, s1) # nested_lookups n w s1 rest) =
      state_after s1 (nested_lookups n w s1 rest)"
    by (simp add: state_after_def)
  from Cons.IH[OF len, of "tr @ t1" "ips @ reply_ips w resp"] q hl collect_reply_ips[OF hl, of ips]
  show ?case unfolding nl st by (simp add: resolve_names.simps)
qed

lemma resolve_names_returns:
  assumes "resolve_names n w s names tr ips = Some (Inr (ips', tr', s'))"
  shows "length (nested_lookups n w s names) = length names"
  using assms
proof (induction names arbitrary: s tr ips)
  case Nil
  then show ?case by simp
next
  case (Cons name rest)
  from Cons.prems obtain q resp t1 nm s1 ips1 where
      q: "question w name = Some q"
      and hl: "hierarchical_lookup n w s q = Some (Inr (resp, t1, nm, s1))"
      and rn: "resolve_names n w s1 rest (tr @ t1) ips1 = Some (Inr (ips', tr', s'))"
      by (auto simp: resolve_names.simps split: option.splits sum.splits)
  from Cons.IH[OF rn] q hl show ?case by simp
qed


lemma one_hop_referral:
  assumes "query_servers w s rq k act tr = Inr (Some (srv, d, t), tr1, s1)"
    and "parse w d = Some m" and "rr m = []"
  shows "one_hop w s rq k act tr =
     (if glue_ips m \<noteq> [] then Glue (glue_ips m) (tr1 @ [reply_entry k srv t m]) s1
      else if ns_names m = [] then Finished None (tr1 @ [reply_entry k srv t m]) s1
      else Names (ns_names m) (tr1 @ [reply_entry k srv t m]) s1)"
  using assms by (simp add: one_hop_def Let_def)

subsection \<open>The trace so far does not influence a run\<close>

lemma add_prefix_twice: "add_prefix tr (add_prefix t0 x) = add_prefix (tr @ t0) x"
  by (cases x) auto

lemma with_prefix_simps [simp]:
  "with_prefix tr None = None"
  "with_prefix tr (Some (Inl e)) = Some (Inl e)"
  "with_prefix tr (Some (Inr (r, t, s'))) = Some (Inr (r, tr @ t, s'))"
  by (simp_all add: with_prefix_def)

lemma query_servers_frame:
  "query_servers w s rq k act tr =
     add_prefix tr (query_servers w s rq k act [])"
proof (induction act arbitrary: s tr)
  case Nil
  then show ?case by simp
next
  case (Cons a act)
  obtain res s1 where ex: "exchange w s a rq = (res, s1)" by (cases "exchange w s a rq")
  show ?case
  proof (cases res)
    case (Reply d t)
    with ex show ?thesis by simp
  next
    case TimedOut
    have "query_servers w s1 rq k act (tr @ [timeout_entry k a]) =
        add_prefix (tr @ [timeout_entry k a]) (query_servers w s1 rq k act [])"
      by (rule Cons.IH)
    moreover have "query_servers w s1 rq k act [timeout_entry k a] =
        add_prefix [timeout_entry k a] (query_servers w s1 rq k act [])"
      by (rule Cons.IH)
    ultimately show ?thesis using ex TimedOut
      by (simp add: add_prefix_twice)
  next
    case SocketFailure
    with ex show ?thesis by simp
  qed
qed

lemma one_hop_frame:
  "one_hop w s rq k act tr = hop_with_prefix tr (one_hop w s rq k act [])"
proof (cases "query_servers w s rq k act []")
  case (Inl e)
  with query_servers_frame[of w s rq k act tr] show ?thesis by (simp add: one_hop_def)
next
  case (Inr res)
  obtain r t0 s1 where res: "res = (r, t0, s1)" by (cases res)
  with Inr query_servers_frame[of w s rq k act tr]
  have qs: "query_servers w s rq k act tr = Inr (r, tr @ t0, s1)" by simp
  show ?thesis
  proof (cases r)
    case None
    with Inr res qs show ?thesis by (simp add: one_hop_def)
  next
    case (Some a)
    obtain srv d t where a: "a = (srv, d, t)" by (cases a)
    show ?thesis
    proof (cases "parse w d")
      case None
      with Inr res qs Some a show ?thesis by (simp add: one_hop_def)
    next
      case (Some m)
      with Inr res qs \<open>r = Some a\<close> a show ?thesis by (simp add: one_hop_def Let_def)
    qed
  qed
qed

lemma with_prefix_twice:
  "with_prefix tr (with_prefix t0 x) = with_prefix (tr @ t0) x"
  by (cases x) (simp_all add: with_prefix_def add_prefix_twice)

lemma resolve_names_frame:
  "resolve_names n w s names tr ips = with_prefix tr (resolve_names n w s names [] ips)"
proof (induction names arbitrary: s tr ips)
  case Nil
  then show ?case by (simp add: resolve_names.simps)
next
  case (Cons name rest)
  show ?case
  proof (cases "question w name")
    case None
    then show ?thesis by (simp add: resolve_names.simps)
  next
    case (Some q)
    show ?thesis
    proof (cases "hierarchical_lookup n w s q")
      case None
      with Some show ?thesis by (simp add: resolve_names.simps)
    next
      case (Some x)
      show ?thesis
      proof (cases x)
        case (Inl e)
        with Some \<open>question w name = Some q\<close> show ?thesis by (simp add: resolve_names.simps)
      next
        case (Inr b)
        obtain resp t1 nm s1 where b: "b = (resp, t1, nm, s1)" by (cases b)
        show ?thesis
        proof (cases "collect w resp ips")
          case (Inl e)
          with Some \<open>question w name = Some q\<close> \<open>x = Inr b\<close> b show ?thesis
            by (simp add: resolve_names.simps)
        next
          case (Inr ips1)
          have "resolve_names n w s (name # rest) tr ips =
              resolve_names n w s1 rest (tr @ t1) ips1"
            using Some \<open>question w name = Some q\<close> \<open>x = Inr b\<close> b Inr
            by (simp add: resolve_names.simps)
          also have "\<dots> = with_prefix (tr @ t1) (resolve_names n w s1 rest [] ips1)"
            by (rule Cons.IH)
          also have "\<dots> = with_prefix tr (with_prefix t1 (resolve_names n w s1 rest [] ips1))"
            by (simp only: with_prefix_twice)
          also have "with_prefix t1 (resolve_names n w s1 rest [] ips1) =
              resolve_names n w s1 rest ([] @ t1) ips1"
            unfolding append_Nil by (rule Cons.IH[symmetric])
          also have "\<dots> = resolve_names n w s (name # rest) [] ips"
            using Some \<open>question w name = Some q\<close> \<open>x = Inr b\<close> b Inr
            by (simp add: resolve_names.simps)
          finally show ?thesis .
        qed
      qed
    qed
  qed
qed

lemma lookup_loop_frame:
  "lookup_loop n w s rq k act tr = with_prefix tr (lookup_loop n w s rq k act [])"
proof (induction n arbitrary: s k act tr)
  case 0
  then show ?case by (simp add: lookup_loop.simps)
next
  case (Suc n)
  note hop = one_hop_frame[of w s rq "k + 1" act tr]
  show ?case
  proof (cases "one_hop w s rq (k + 1) act []")
    case (Raised e)
    with hop show ?thesis by (simp add: lookup_loop.simps)
  next
    case (Finished r t0 s1)
    with hop show ?thesis by (simp add: lookup_loop.simps)
  next
    case (Glue ips t0 s1)
    with hop have "lookup_loop (Suc n) w s rq k act tr =
        lookup_loop n w s1 rq (k + 1) ips (tr @ t0)"
      by (simp add: lookup_loop.simps)
    also have "\<dots> = with_prefix (tr @ t0) (lookup_loop n w s1 rq (k + 1) ips [])"
      by (rule Suc.IH)
    also have "\<dots> = with_prefix tr (with_prefix t0 (lookup_loop n w s1 rq (k + 1) ips []))"
      by (simp only: with_prefix_twice)
    also have "with_prefix t0 (lookup_loop n w s1 rq (k + 1) ips []) =
        lookup_loop n w s1 rq (k + 1) ips t0"
      by (rule Suc.IH[symmetric])
    also have "\<dots> = lookup_loop (Suc n) w s rq k act []"
      using Glue by (simp add: lookup_loop.simps)
    finally show ?thesis .
  next
    case (Names ns t0 s1)
    with hop have h: "one_hop w s rq (k + 1) act tr = Names ns (tr @ t0) s1" by simp
    have rn: "resolve_names n w s1 ns (tr @ t0) [] =
        with_prefix tr (resolve_names n w s1 ns t0 [])"
      using resolve_names_frame[of n w s1 ns "tr @ t0" "[]"]
        resolve_names_frame[of n w s1 ns t0 "[]"]
      by (simp only: with_prefix_twice)
    show ?thesis
    proof (cases "resolve_names n w s1 ns t0 []")
      case None
      with rn h Names show ?thesis by (simp add: lookup_loop.simps)
    next
      case (Some x)
      show ?thesis
      proof (cases x)
        case (Inl e)
        with Some rn h Names show ?thesis by (simp add: lookup_loop.simps)
      next
        case (Inr b)
        obtain ips t3 s3 where b: "b = (ips, t3, s3)" by (cases b)
        with Some Inr rn have rn': "resolve_names n w s1 ns (tr @ t0) [] =
            Some (Inr (ips, tr @ t3, s3))" by simp
        show ?thesis
        proof (cases "ips = []")
          case True
          with Some Inr b rn' h Names show ?thesis by (simp add: lookup_loop.simps)
        next
          case False
          have "lookup_loop (Suc n) w s rq k act tr =
              lookup_loop n w s3 rq (k + 1) ips (tr @ t3)"
            using h rn' False by (simp add: lookup_loop.simps)
          also have "\<dots> = with_prefix (tr @ t3) (lookup_loop n w s3 rq (k + 1) ips [])"
            by (rule Suc.IH)
          also have "\<dots> = with_prefix tr (with_prefix t3 (lookup_loop n w s3 rq (k + 1) ips []))"
            by (simp only: with_prefix_twice)
          also have "with_prefix t3 (lookup_loop n w s3 rq (k + 1) ips []) =
              lookup_loop n w s3 rq (k + 1) ips t3"
            by (rule Suc.IH[symmetric])
          also have "\<dots> = lookup_loop (Suc n) w s rq k act []"
            using Names Some Inr b False by (simp add: lookup_loop.simps)
          finally show ?thesis .
        qed
      qed
    qed
  qed
qed

lemma with_prefix_returns:
  assumes "with_prefix tr x = Some (Inr (r, t', s'))"
  shows "\<exists>t. x = Some (Inr (r, t, s')) \<and> t' = tr @ t"
proof (cases x)
  case None
  with assms show ?thesis by simp
next
  case (Some y)
  show ?thesis
  proof (cases y)
    case (Inl e)
    with Some assms show ?thesis by simp
  next
    case (Inr b)
    obtain r0 t0 s0 where "b = (r0, t0, s0)" by (cases b)
    with Some Inr assms show ?thesis by simp
  qed
qed

lemma state_after_Cons:
  "state_after s ((resp, t, s1) # results) = state_after s1 results"
  by (simp add: state_after_def)

lemma nested_lookups_nth:
  "length (nested_lookups n w s names) = length names \<Longrightarrow> i < length names \<Longrightarrow>
   \<exists>packed ns_name.
     question w (names ! i) = Some packed \<and>
     hierarchical_lookup n w (state_after s (take i (nested_lookups n w s names))) packed =
       Some (Inr (fst (nested_lookups n w s names ! i),
                  fst (snd (nested_lookups n w s names ! i)), ns_name,
                  snd (snd (nested_lookups n w s names ! i))))"
proof (induction names arbitrary: s i)
  case Nil
  then show ?case by simp
next
  case (Cons name rest)
  from Cons.prems(1) obtain q where q: "question w name = Some q"
    by (auto split: option.splits)
  with Cons.prems(1) obtain resp t1 nm s1 where
    hl: "hierarchical_lookup n w s q = Some (Inr (resp, t1, nm, s1))"
    by (auto split: option.splits sum.splits)
  with q have nl: "nested_lookups n w s (name # rest) = (resp, t1, s1) # nested_lookups n w s1 rest"
    by simp
  with Cons.prems(1) have len: "length (nested_lookups n w s1 rest) = length rest" by simp
  show ?case
  proof (cases i)
    case 0
    with q hl nl show ?thesis by (simp add: state_after_def)
  next
    case (Suc i')
    with Cons.prems(2) have "i' < length rest" by simp
    from Cons.IH[OF len this] Suc nl show ?thesis
      by (simp add: state_after_Cons)
  qed
qed

lemma resolve_names_stops:
  "length (nested_lookups n w s names) < length names \<Longrightarrow>
   resolve_names n w s names tr ips =
     (case question w (names ! length (nested_lookups n w s names)) of
        None \<Rightarrow> Some (Inl DNSLabelError)
      | Some packed \<Rightarrow>
          (case hierarchical_lookup n w (state_after s (nested_lookups n w s names)) packed of
             Some (Inl e) \<Rightarrow> Some (Inl e)
           | _ \<Rightarrow> None))"
proof (induction names arbitrary: s tr ips)
  case Nil
  then show ?case by simp
next
  case (Cons name rest)
  show ?case
  proof (cases "question w name")
    case None
    then show ?thesis by (simp add: resolve_names.simps)
  next
    case (Some q)
    show ?thesis
    proof (cases "hierarchical_lookup n w s q")
      case None
      with Some show ?thesis by (simp add: resolve_names.simps state_after_def)
    next
      case (Some x)
      note hl = this
      show ?thesis
      proof (cases x)
        case (Inl e)
        with hl \<open>question w name = Some q\<close> show ?thesis
          by (simp add: resolve_names.simps state_after_def)
      next
        case (Inr b)
        obtain resp t1 nm s1 where b: "b = (resp, t1, nm, s1)" by (cases b)
        with hl Inr have hl': "hierarchical_lookup n w s q = Some (Inr (resp, t1, nm, s1))"
          by simp
        with \<open>question w name = Some q\<close>
        have nl: "nested_lookups n w s (name # rest) =
            (resp, t1, s1) # nested_lookups n w s1 rest" by simp
        with Cons.prems have len: "length (nested_lookups n w s1 rest) < length rest" by simp
        have "resolve_names n w s (name # rest) tr ips =
            resolve_names n w s1 rest (tr @ t1) (ips @ reply_ips w resp)"
          using \<open>question w name = Some q\<close> hl' collect_reply_ips[OF hl', of ips]
          by (simp add: resolve_names.simps)
        with Cons.IH[OF len, of "tr @ t1" "ips @ reply_ips w resp"] show ?thesis
          unfolding nl state_after_Cons by simp
      qed
    qed
  qed
qed

lemma reply_ips_explicit:
  "concat (map (reply_ips w \<circ> fst) nested) =
   concat (map (\<lambda>(ns_response, ns_trace, s').
     case ns_response of
       None \<Rightarrow> []
     | Some ns_bytes \<Rightarrow>
         if ns_bytes = [] then []
         else (case parse w ns_bytes of
                 None \<Rightarrow> []
               | Some ns_parsed \<Rightarrow> map rdata (filter (\<lambda>r. rtype r = 1) (rr ns_parsed)))) nested)"
  by (rule arg_cong[where f = concat]) (auto simp: reply_ips_def split: prod.splits)

text \<open>
  C6. When a stage receives a referral without address glue that names servers, and the
  lookup returns, every name was looked up by a nested call, one after the other, each
  from the state its predecessor left; and the returned trace is exactly: the trace up
  to this stage's reply entry (the earlier trace and this stage's timeouts), then the
  traces the nested calls returned, whole and in the order of the calls, then the
  entries of the rest of the parent's run, which are the ones that run makes when it
  starts from an empty trace. So nothing is lost and nothing is repeated.
\<close>

theorem nested_traces_merged:
  assumes "query_servers w s request_bytes (lookup_step + 1) active_servers trace_info =
             Inr (Some (contacted_server, reply_data, response_time), trace1, s1)"
    and "parse w reply_data = Some parsed_reply"
    and "rr parsed_reply = []"
    and "map rdata (filter (\<lambda>r. rtype r = 1) (ar parsed_reply)) = []"
    and "server_names = map rdata (filter (\<lambda>r. rtype r = 2) (auth parsed_reply))"
    and "server_names \<noteq> []"
    and "nested = nested_lookups fuel w s1 server_names"
    and "next_server_ips = concat (map (reply_ips w \<circ> fst) nested)"
    and "lookup_loop (Suc fuel) w s request_bytes lookup_step active_servers trace_info =
             Some (Inr (final_response, trace', s'))"
  shows "length nested = length server_names \<and>
         (\<forall>i<length server_names. \<exists>packed ns_name.
            question w (server_names ! i) = Some packed \<and>
            hierarchical_lookup fuel w (state_after s1 (take i nested)) packed =
              Some (Inr (fst (nested ! i), fst (snd (nested ! i)), ns_name,
                         snd (snd (nested ! i))))) \<and>
         (\<exists>j after.
            trace1 = trace_info @
              map (timeout_entry (lookup_step + 1)) (take j active_servers) \<and>
            trace' = trace1 @
              [reply_entry (lookup_step + 1) contacted_server response_time parsed_reply] @
              concat (map (fst \<circ> snd) nested) @ after \<and>
            (if next_server_ips = [] then after = [] \<and> final_response = None
             else lookup_loop fuel w (state_after s1 nested) request_bytes (lookup_step + 1)
                    next_server_ips [] = Some (Inr (final_response, after, s'))))"
proof -
  let ?e = "reply_entry (lookup_step + 1) contacted_server response_time parsed_reply"
  let ?tr3 = "(trace1 @ [?e]) @ concat (map (fst \<circ> snd) nested)"
  let ?s3 = "state_after s1 nested"
  have glue: "glue_ips parsed_reply = []" using assms(4) by (simp add: glue_ips_def)
  have names: "ns_names parsed_reply = server_names" using assms(5) by (simp add: ns_names_def)
  have hop: "one_hop w s request_bytes (lookup_step + 1) active_servers trace_info =
      Names server_names (trace1 @ [?e]) s1"
    using one_hop_referral[OF assms(1,2,3)] glue names assms(6) by simp
  from assms(9) hop obtain ips tr3 s3 where
    rn: "resolve_names fuel w s1 server_names (trace1 @ [?e]) [] = Some (Inr (ips, tr3, s3))"
    by (auto simp: lookup_loop.simps split: option.splits sum.splits if_splits)
  have len: "length nested = length server_names"
    unfolding assms(7) using rn by (rule resolve_names_returns)
  have rn': "resolve_names fuel w s1 server_names (trace1 @ [?e]) [] =
      Some (Inr (next_server_ips, ?tr3, ?s3))"
    using resolve_names_nested[OF len[unfolded assms(7)], of "trace1 @ [?e]" "[]"]
    unfolding assms(7,8) by simp
  have run: "lookup_loop (Suc fuel) w s request_bytes lookup_step active_servers trace_info =
      (if next_server_ips = [] then Some (Inr (None, ?tr3, ?s3))
       else lookup_loop fuel w ?s3 request_bytes (lookup_step + 1) next_server_ips ?tr3)"
    by (simp only: lookup_loop.simps hop hop.case rn') simp
  have nth: "\<forall>i<length server_names. \<exists>packed ns_name.
            question w (server_names ! i) = Some packed \<and>
            hierarchical_lookup fuel w (state_after s1 (take i nested)) packed =
              Some (Inr (fst (nested ! i), fst (snd (nested ! i)), ns_name,
                         snd (snd (nested ! i))))"
    using nested_lookups_nth[OF len[unfolded assms(7)]] unfolding assms(7) by blast
  from query_servers_shape[OF assms(1)] obtain j where
    j: "trace1 = trace_info @ map (timeout_entry (lookup_step + 1)) (take j active_servers)"
    by blast
  have "\<exists>after. trace' = ?tr3 @ after \<and>
      (if next_server_ips = [] then after = [] \<and> final_response = None
       else lookup_loop fuel w ?s3 request_bytes (lookup_step + 1) next_server_ips [] =
              Some (Inr (final_response, after, s')))"
  proof (cases "next_server_ips = []")
    case True
    with run assms(9) show ?thesis by simp
  next
    case False
    with run assms(9)
    have c: "lookup_loop fuel w ?s3 request_bytes (lookup_step + 1) next_server_ips ?tr3 =
        Some (Inr (final_response, trace', s'))" by simp
    from c have "with_prefix ?tr3
        (lookup_loop fuel w ?s3 request_bytes (lookup_step + 1) next_server_ips []) =
        Some (Inr (final_response, trace', s'))"
      by (simp only: lookup_loop_frame[symmetric])
    from with_prefix_returns[OF this]
    obtain after where
      "lookup_loop fuel w ?s3 request_bytes (lookup_step + 1) next_server_ips [] =
         Some (Inr (final_response, after, s'))" and "trace' = ?tr3 @ after"
      by blast
    with False show ?thesis by auto
  qed
  then obtain after where after: "trace' = ?tr3 @ after"
    "if next_server_ips = [] then after = [] \<and> final_response = None
       else lookup_loop fuel w ?s3 request_bytes (lookup_step + 1) next_server_ips [] =
              Some (Inr (final_response, after, s'))"
    by blast
  from after(1) have "trace' = trace1 @ [?e] @ concat (map (fst \<circ> snd) nested) @ after"
    by simp
  with len nth j after(2) show ?thesis by blast
qed

theorem nested_traces_merged_witness:
  "query_servers glueless_world 1 [2] (1 + 1) [''199.19.56.1'']
       [reply_entry 1 ''198.41.0.4'' 1500 org_referral] =
     Inr (Some (''199.19.56.1'', [21], 1800),
          [reply_entry 1 ''198.41.0.4'' 1500 org_referral], 2) \<and>
   parse glueless_world [21] = Some glueless_referral \<and>
   rr glueless_referral = [] \<and>
   map rdata (filter (\<lambda>r. rtype r = 1) (ar glueless_referral)) = [] \<and>
   [''ns.icann.org.''] = map rdata (filter (\<lambda>r. rtype r = 2) (auth glueless_referral)) \<and>
   [(Some ([22] :: bytes), [reply_entry 1 ''198.41.0.4'' 1400 ns_answer], 3 :: nat)] =
     nested_lookups 1 glueless_world 2 [''ns.icann.org.''] \<and>
   [''199.4.138.53''] = concat (map (reply_ips glueless_world \<circ> fst)
     [(Some ([22] :: bytes), [reply_entry 1 ''198.41.0.4'' 1400 ns_answer], 3 :: nat)]) \<and>
   lookup_loop (Suc 1) glueless_world 1 [2] 1 [''199.19.56.1'']
       [reply_entry 1 ''198.41.0.4'' 1500 org_referral] =
     Some (Inr (Some [23],
       [reply_entry 1 ''198.41.0.4'' 1500 org_referral,
        reply_entry 2 ''199.19.56.1'' 1800 glueless_referral,
        reply_entry 1 ''198.41.0.4'' 1400 ns_answer,
        reply_entry 3 ''199.4.138.53'' 900 org_answer], 4)) \<and>
   (\<exists>j after.
      [reply_entry 1 ''198.41.0.4'' 1500 org_referral] =
        [reply_entry 1 ''198.41.0.4'' 1500 org_referral] @
        map (timeout_entry (1 + 1)) (take j [''199.19.56.1'']) \<and>
      [reply_entry 1 ''198.41.0.4'' 1500 org_referral,
       reply_entry 2 ''199.19.56.1'' 1800 glueless_referral,
       reply_entry 1 ''198.41.0.4'' 1400 ns_answer,
       reply_entry 3 ''199.4.138.53'' 900 org_answer] =
        [reply_entry 1 ''198.41.0.4'' 1500 org_referral] @
        [reply_entry (1 + 1) ''199.19.56.1'' 1800 glueless_referral] @
        concat (map (fst \<circ> snd)
          [(Some ([22] :: bytes), [reply_entry 1 ''198.41.0.4'' 1400 ns_answer], 3 :: nat)]) @ after \<and>
      lookup_loop 1 glueless_world 3 [2] (1 + 1) [''199.4.138.53''] [] =
        Some (Inr (Some [23], after, 4)))"
proof -
  let ?e1 = "reply_entry 1 ''198.41.0.4'' 1500 org_referral"
  let ?nested = "[(Some ([22] :: bytes), [reply_entry 1 ''198.41.0.4'' 1400 ns_answer], 3 :: nat)]"
  have h1: "query_servers glueless_world 1 [2] (1 + 1) [''199.19.56.1''] [?e1] =
     Inr (Some (''199.19.56.1'', [21], 1800), [?e1], 2)"
    by code_simp
  have h2: "parse glueless_world [21] = Some glueless_referral"
    by code_simp
  have h3: "rr glueless_referral = []" by code_simp
  have h4: "map rdata (filter (\<lambda>r. rtype r = 1) (ar glueless_referral)) = []"
    by (simp add: glueless_referral_def)
  have h5: "[''ns.icann.org.''] = map rdata (filter (\<lambda>r. rtype r = 2) (auth glueless_referral))"
    by (simp add: glueless_referral_def NS_record_def)
  have h6: "[''ns.icann.org.''] \<noteq> []" by simp
  have h7: "?nested = nested_lookups 1 glueless_world 2 [''ns.icann.org.'']"
    by code_simp
  have h8: "[''199.4.138.53''] = concat (map (reply_ips glueless_world \<circ> fst) ?nested)"
    by code_simp
  have h9: "lookup_loop (Suc 1) glueless_world 1 [2] 1 [''199.19.56.1''] [?e1] =
     Some (Inr (Some [23],
       [?e1, reply_entry 2 ''199.19.56.1'' 1800 glueless_referral,
        reply_entry 1 ''198.41.0.4'' 1400 ns_answer,
        reply_entry 3 ''199.4.138.53'' 900 org_answer], 4))"
    by code_simp
  have st: "state_after 2 ?nested = 3" by (simp add: state_after_def)
  from nested_traces_merged[OF h1 h2 h3 h4 h5 h6 h7 h8 h9]
  have "\<exists>j after.
      [?e1] = [?e1] @ map (timeout_entry (1 + 1)) (take j [''199.19.56.1'']) \<and>
      [?e1, reply_entry 2 ''199.19.56.1'' 1800 glueless_referral,
       reply_entry 1 ''198.41.0.4'' 1400 ns_answer,
       reply_entry 3 ''199.4.138.53'' 900 org_answer] =
        [?e1] @ [reply_entry (1 + 1) ''199.19.56.1'' 1800 glueless_referral] @
        concat (map (fst \<circ> snd) ?nested) @ after \<and>
      lookup_loop 1 glueless_world 3 [2] (1 + 1) [''199.4.138.53''] [] =
        Some (Inr (Some [23], after, 4))"
    unfolding st by simp
  with h1 h2 h3 h4 h5 h7 h8 h9 show ?thesis by (intro conjI)
qed

text \<open>
  C4, as the code has it. For a referral, a decoded reply without answer records: when
  its additional section has address records (type 1), their data are the next servers.
  When it has none and the authority section has no name-server record (type 2), the
  lookup ends without a final response (\<^verbatim>\<open>None\<close>, the one value for every failure: the
  code has no \<open>NoDelegationPath\<close>). When it has none and names are given, the names are
  looked up in order, each by a nested call of the same function. When every call
  returns, the data of the address records in the answers of the replies, all of them
  and in order, are the next servers, and when there are none the lookup ends without a
  final response. When a call raises an exception (its reply cannot be decoded, a socket
  fails, a name cannot be encoded), the exception leaves the whole lookup: the names
  after it are not looked up and nothing is collected; and when a call does not return,
  neither does the lookup.
\<close>

theorem next_servers:
  assumes "query_servers w s request_bytes (lookup_step + 1) active_servers trace_info =
             Inr (Some (contacted_server, reply_data, response_time), trace1, s1)"
    and "parse w reply_data = Some parsed_reply"
    and "rr parsed_reply = []"
    and "glue = map rdata (filter (\<lambda>r. rtype r = 1) (ar parsed_reply))"
    and "server_names = map rdata (filter (\<lambda>r. rtype r = 2) (auth parsed_reply))"
    and "trace2 = trace1 @
           [reply_entry (lookup_step + 1) contacted_server response_time parsed_reply]"
    and "nested = nested_lookups fuel w s1 server_names"
    and "found = concat (map (\<lambda>(ns_response, ns_trace, s').
           case ns_response of
             None \<Rightarrow> []
           | Some ns_bytes \<Rightarrow>
               if ns_bytes = [] then []
               else (case parse w ns_bytes of
                       None \<Rightarrow> []
                     | Some ns_parsed \<Rightarrow>
                         map rdata (filter (\<lambda>r. rtype r = 1) (rr ns_parsed)))) nested)"
  shows
    "(glue \<noteq> [] \<longrightarrow>
        lookup_loop (Suc fuel) w s request_bytes lookup_step active_servers trace_info =
        lookup_loop fuel w s1 request_bytes (lookup_step + 1) glue trace2) \<and>
     (glue = [] \<and> server_names = [] \<longrightarrow>
        lookup_loop (Suc fuel) w s request_bytes lookup_step active_servers trace_info =
        Some (Inr (None, trace2, s1))) \<and>
     (glue = [] \<and> server_names \<noteq> [] \<and> length nested = length server_names \<longrightarrow>
        lookup_loop (Suc fuel) w s request_bytes lookup_step active_servers trace_info =
          (if found = [] then
             Some (Inr (None, trace2 @ concat (map (fst \<circ> snd) nested),
                        state_after s1 nested))
           else lookup_loop fuel w (state_after s1 nested) request_bytes (lookup_step + 1)
                  found (trace2 @ concat (map (fst \<circ> snd) nested)))) \<and>
     (glue = [] \<and> server_names \<noteq> [] \<and> length nested < length server_names \<longrightarrow>
        lookup_loop (Suc fuel) w s request_bytes lookup_step active_servers trace_info =
          (case question w (server_names ! length nested) of
             None \<Rightarrow> Some (Inl DNSLabelError)
           | Some packed \<Rightarrow>
               (case hierarchical_lookup fuel w (state_after s1 nested) packed of
                  Some (Inl e) \<Rightarrow> Some (Inl e)
                | _ \<Rightarrow> None)))"
proof (intro conjI impI)
  have g: "glue_ips parsed_reply = glue" using assms(4) by (simp add: glue_ips_def)
  have n: "ns_names parsed_reply = server_names" using assms(5) by (simp add: ns_names_def)
  have f: "found = concat (map (reply_ips w \<circ> fst) nested)"
    unfolding assms(8) by (rule reply_ips_explicit[symmetric])
  note hop = one_hop_referral[OF assms(1,2,3), unfolded g n, folded assms(6)]
  {
    assume "glue \<noteq> []"
    with hop show "lookup_loop (Suc fuel) w s request_bytes lookup_step active_servers trace_info =
        lookup_loop fuel w s1 request_bytes (lookup_step + 1) glue trace2"
      by (simp add: lookup_loop.simps)
  next
    assume "glue = [] \<and> server_names = []"
    with hop show "lookup_loop (Suc fuel) w s request_bytes lookup_step active_servers trace_info =
        Some (Inr (None, trace2, s1))"
      by (simp add: lookup_loop.simps)
  next
    assume a: "glue = [] \<and> server_names \<noteq> [] \<and> length nested = length server_names"
    with hop have h: "one_hop w s request_bytes (lookup_step + 1) active_servers trace_info =
        Names server_names trace2 s1" by simp
    from a have len: "length (nested_lookups fuel w s1 server_names) = length server_names"
      unfolding assms(7) by simp
    have rn: "resolve_names fuel w s1 server_names trace2 [] =
        Some (Inr (found, trace2 @ concat (map (fst \<circ> snd) nested), state_after s1 nested))"
      using resolve_names_nested[OF len, of trace2 "[]"] unfolding f assms(7) by simp
    show "lookup_loop (Suc fuel) w s request_bytes lookup_step active_servers trace_info =
          (if found = [] then
             Some (Inr (None, trace2 @ concat (map (fst \<circ> snd) nested),
                        state_after s1 nested))
           else lookup_loop fuel w (state_after s1 nested) request_bytes (lookup_step + 1)
                  found (trace2 @ concat (map (fst \<circ> snd) nested)))"
      by (simp only: lookup_loop.simps h hop.case rn) simp
  next
    assume a: "glue = [] \<and> server_names \<noteq> [] \<and> length nested < length server_names"
    with hop have h: "one_hop w s request_bytes (lookup_step + 1) active_servers trace_info =
        Names server_names trace2 s1" by simp
    from a have len: "length (nested_lookups fuel w s1 server_names) < length server_names"
      unfolding assms(7) by simp
    note rn = resolve_names_stops[OF len, of trace2 "[]", folded assms(7)]
    show "lookup_loop (Suc fuel) w s request_bytes lookup_step active_servers trace_info =
          (case question w (server_names ! length nested) of
             None \<Rightarrow> Some (Inl DNSLabelError)
           | Some packed \<Rightarrow>
               (case hierarchical_lookup fuel w (state_after s1 nested) packed of
                  Some (Inl e) \<Rightarrow> Some (Inl e)
                | _ \<Rightarrow> None))"
      by (simp only: lookup_loop.simps h hop.case rn)
        (auto split: option.splits sum.splits)
  }
qed

theorem next_servers_witness:
  "[''199.19.56.1''] = map rdata (filter (\<lambda>r. rtype r = 1) (ar org_referral)) \<and>
   lookup_loop (Suc 2) glueless_world 0 [2] 0 NAME_SERVERS [] =
     lookup_loop 2 glueless_world 1 [2] (0 + 1) [''199.19.56.1'']
       [reply_entry 1 ''198.41.0.4'' 1500 org_referral] \<and>
   lookup_loop (Suc 0) glueless_world 0 [2] 0 [''192.0.2.1''] [] =
     Some (Inr (None, [reply_entry 1 ''192.0.2.1'' 700 empty_reply], 1)) \<and>
   [''ns.icann.org.''] = map rdata (filter (\<lambda>r. rtype r = 2) (auth glueless_referral)) \<and>
   lookup_loop (Suc 1) glueless_world 1 [2] 1 [''199.19.56.1'']
       [reply_entry 1 ''198.41.0.4'' 1500 org_referral] =
     lookup_loop 1 glueless_world 3 [2] (1 + 1) [''199.4.138.53'']
       [reply_entry 1 ''198.41.0.4'' 1500 org_referral,
        reply_entry 2 ''199.19.56.1'' 1800 glueless_referral,
        reply_entry 1 ''198.41.0.4'' 1400 ns_answer] \<and>
   [''ns1.example.net.'', ''ns.icann.org.''] =
     map rdata (filter (\<lambda>r. rtype r = 2) (auth two_name_referral)) \<and>
   hierarchical_lookup 2 broken_world 1 [4] = Some (Inl DNSError) \<and>
   lookup_loop (Suc 2) broken_world 0 [2] 0 NAME_SERVERS [] = Some (Inl DNSError)"
proof -
  let ?e1 = "reply_entry 1 ''198.41.0.4'' 1500 org_referral"
  let ?e2 = "reply_entry 2 ''199.19.56.1'' 1800 glueless_referral"
  let ?n1 = "reply_entry 1 ''198.41.0.4'' 1400 ns_answer"
  let ?nested = "[(Some ([22] :: bytes), [?n1], 3 :: nat)]"
  let ?none = "[] :: (bytes option \<times> trace_entry list \<times> nat) list"
  let ?found = "\<lambda>nested :: (bytes option \<times> trace_entry list \<times> nat) list.
     concat (map (\<lambda>(ns_response, ns_trace, s').
       case ns_response of
         None \<Rightarrow> []
       | Some ns_bytes \<Rightarrow>
           if ns_bytes = [] then []
           else (case parse glueless_world ns_bytes of
                   None \<Rightarrow> []
                 | Some ns_parsed \<Rightarrow>
                     map rdata (filter (\<lambda>r. rtype r = 1) (rr ns_parsed)))) nested)"
  have pw: "parse broken_world = parse glueless_world"
    by (simp add: broken_world_def glueless_world_def)
  \<comment> \<open>the referral with glue\<close>
  have a1: "query_servers glueless_world 0 [2] (0 + 1) NAME_SERVERS [] =
      Inr (Some (''198.41.0.4'', [20], 1500), [], 1)"
    by code_simp
  have a2: "parse glueless_world [20] = Some org_referral" by code_simp
  have a3: "rr org_referral = []" by code_simp
  have a4: "[''199.19.56.1''] = map rdata (filter (\<lambda>r. rtype r = 1) (ar org_referral))"
    by (simp add: org_referral_def A_record_def)
  have a5: "[''a0.org.afilias-nst.info.''] =
      map rdata (filter (\<lambda>r. rtype r = 2) (auth org_referral))"
    by (simp add: org_referral_def NS_record_def)
  have a6: "[?e1] = [] @ [reply_entry (0 + 1) ''198.41.0.4'' 1500 org_referral]" by simp
  have a7: "?none = nested_lookups 2 glueless_world 1 [''a0.org.afilias-nst.info.'']"
    by code_simp
  have a8: "[] = ?found ?none" by simp
  have a9: "[''199.19.56.1''] \<noteq> []" by simp
  note r1 = next_servers[OF a1 a2 a3 a4 a5 a6 a7 a8, THEN conjunct1, THEN mp, OF a9]
  \<comment> \<open>the reply without glue and without names\<close>
  have b1: "query_servers glueless_world 0 [2] (0 + 1) [''192.0.2.1''] [] =
      Inr (Some (''192.0.2.1'', [24], 700), [], 1)"
    by code_simp
  have b2: "parse glueless_world [24] = Some empty_reply" by code_simp
  have b3: "rr empty_reply = []" by code_simp
  have b4: "[] = map rdata (filter (\<lambda>r. rtype r = 1) (ar empty_reply))"
    by (simp add: empty_reply_def)
  have b5: "[] = map rdata (filter (\<lambda>r. rtype r = 2) (auth empty_reply))"
    by (simp add: empty_reply_def)
  have b6: "[reply_entry 1 ''192.0.2.1'' 700 empty_reply] =
      [] @ [reply_entry (0 + 1) ''192.0.2.1'' 700 empty_reply]" by simp
  have b7: "?none = nested_lookups 0 glueless_world 1 []" by simp
  have b9: "[] = ([] :: string list) \<and> [] = ([] :: string list)" by simp
  note r2 = next_servers[OF b1 b2 b3 b4 b5 b6 b7 a8, THEN conjunct2, THEN conjunct1, THEN mp,
      OF b9]
  \<comment> \<open>the referral without glue whose name is looked up\<close>
  have c1: "query_servers glueless_world 1 [2] (1 + 1) [''199.19.56.1''] [?e1] =
      Inr (Some (''199.19.56.1'', [21], 1800), [?e1], 2)"
    by code_simp
  have c2: "parse glueless_world [21] = Some glueless_referral" by code_simp
  have c3: "rr glueless_referral = []" by code_simp
  have c4: "[] = map rdata (filter (\<lambda>r. rtype r = 1) (ar glueless_referral))"
    by (simp add: glueless_referral_def)
  have c5: "[''ns.icann.org.''] = map rdata (filter (\<lambda>r. rtype r = 2) (auth glueless_referral))"
    by (simp add: glueless_referral_def NS_record_def)
  have two: "(1::nat) + 1 = 2" by simp
  have c6: "[?e1, ?e2] = [?e1] @ [reply_entry (1 + 1) ''199.19.56.1'' 1800 glueless_referral]"
    unfolding two by simp
  have c7: "?nested = nested_lookups 1 glueless_world 2 [''ns.icann.org.'']"
    by code_simp
  have c8: "[''199.4.138.53''] = ?found ?nested"
    by (simp add: glueless_world_def glueless_parse_def ns_answer_def A_record_def)
  have c9: "[] = ([] :: string list) \<and> [''ns.icann.org.''] \<noteq> [] \<and>
      length ?nested = length [''ns.icann.org.'']" by simp
  note r3 = next_servers[OF c1 c2 c3 c4 c5 c6 c7 c8, THEN conjunct2, THEN conjunct2,
      THEN conjunct1, THEN mp, OF c9]
  \<comment> \<open>the referral without glue whose first name cannot be looked up\<close>
  have d1: "query_servers broken_world 0 [2] (0 + 1) NAME_SERVERS [] =
      Inr (Some (''198.41.0.4'', [25], 1500), [], 1)"
    by code_simp
  have d2: "parse broken_world [25] = Some two_name_referral" by code_simp
  have d3: "rr two_name_referral = []" by code_simp
  have d4: "[] = map rdata (filter (\<lambda>r. rtype r = 1) (ar two_name_referral))"
    by (simp add: two_name_referral_def)
  have d5: "[''ns1.example.net.'', ''ns.icann.org.''] =
      map rdata (filter (\<lambda>r. rtype r = 2) (auth two_name_referral))"
    by (simp add: two_name_referral_def NS_record_def)
  have d6: "[reply_entry 1 ''198.41.0.4'' 1500 two_name_referral] =
      [] @ [reply_entry (0 + 1) ''198.41.0.4'' 1500 two_name_referral]" by simp
  have d7: "?none = nested_lookups 2 broken_world 1 [''ns1.example.net.'', ''ns.icann.org.'']"
    by code_simp
  have d8: "[] = concat (map (\<lambda>(ns_response, ns_trace, s').
       case ns_response of
         None \<Rightarrow> []
       | Some ns_bytes \<Rightarrow>
           if ns_bytes = [] then []
           else (case parse broken_world ns_bytes of
                   None \<Rightarrow> []
                 | Some ns_parsed \<Rightarrow>
                     map rdata (filter (\<lambda>r. rtype r = 1) (rr ns_parsed)))) ?none)"
    by simp
  have d9: "[] = ([] :: string list) \<and> [''ns1.example.net.'', ''ns.icann.org.''] \<noteq> [] \<and>
      length ?none < length [''ns1.example.net.'', ''ns.icann.org.'']" by simp
  have d10: "question broken_world ''ns1.example.net.'' = Some [4]"
    by (simp add: broken_world_def)
  have d11: "hierarchical_lookup 2 broken_world 1 [4] = Some (Inl DNSError)"
    by code_simp
  note r4 = next_servers[OF d1 d2 d3 d4 d5 d6 d7 d8, THEN conjunct2, THEN conjunct2,
      THEN conjunct2, THEN mp, OF d9]
  have e1: "lookup_loop (Suc 2) glueless_world 0 [2] 0 NAME_SERVERS [] =
      lookup_loop 2 glueless_world 1 [2] (0 + 1) [''199.19.56.1''] [?e1]"
    using r1 .
  have e2: "lookup_loop (Suc 0) glueless_world 0 [2] 0 [''192.0.2.1''] [] =
      Some (Inr (None, [reply_entry 1 ''192.0.2.1'' 700 empty_reply], 1))"
    using r2 .
  have e3: "lookup_loop (Suc 1) glueless_world 1 [2] 1 [''199.19.56.1''] [?e1] =
      lookup_loop 1 glueless_world 3 [2] (1 + 1) [''199.4.138.53''] [?e1, ?e2, ?n1]"
    using r3 by (simp add: state_after_def)
  have e4: "lookup_loop (Suc 2) broken_world 0 [2] 0 NAME_SERVERS [] = Some (Inl DNSError)"
    using r4 d10 d11 by (simp add: state_after_def)
  from a4 e1 e2 c5 e3 d5 d11 e4 show ?thesis by (intro conjI)
qed

text \<open>
  The claim fails in the network whose referral names two servers and in which the
  lookup of the first name meets a reply that cannot be decoded. The second name would
  resolve to an address, but it is never looked up: the lookup neither collects that
  address nor ends as a failed resolution, it ends with the decoding error of the nested
  call.
\<close>

theorem nested_lookup_raises_counterexample:
  "parse broken_world [25] = Some two_name_referral \<and>
   rr two_name_referral = [] \<and>
   map rdata (filter (\<lambda>r. rtype r = 1) (ar two_name_referral)) = [] \<and>
   map rdata (filter (\<lambda>r. rtype r = 2) (auth two_name_referral)) =
     [''ns1.example.net.'', ''ns.icann.org.''] \<and>
   question broken_world ''ns1.example.net.'' = Some [4] \<and>
   hierarchical_lookup 2 broken_world 1 [4] = Some (Inl DNSError) \<and>
   question broken_world ''ns.icann.org.'' = Some [3] \<and>
   hierarchical_lookup 2 broken_world 1 [3] =
     Some (Inr (Some [22], [reply_entry 1 ''198.41.0.4'' 1400 ns_answer],
                ''ns.icann.org.'', 2)) \<and>
   map rdata (filter (\<lambda>r. rtype r = 1) (rr ns_answer)) = [''199.4.138.53''] \<and>
   hierarchical_lookup 3 broken_world 0 [2] = Some (Inl DNSError)"
  by code_simp

subsection \<open>Lookups that do not end, and exceptions\<close>

lemma lookup_loop_never_returns:
  assumes "refers_with_glue w"
  shows "active_servers \<noteq> [] \<Longrightarrow>
         lookup_loop fuel w s request_bytes lookup_step active_servers trace_info = None"
proof (induction fuel arbitrary: s lookup_step active_servers trace_info)
  case 0
  then show ?case by (simp add: lookup_loop.simps)
next
  case (Suc fuel)
  from Suc.prems obtain a rest where act: "active_servers = a # rest"
    by (cases active_servers) auto
  from assms obtain d t s' m where
    ex: "exchange w s a request_bytes = (Reply d t, s')"
    and m: "parse w d = Some m" "rr m = []" "glue_ips m \<noteq> []"
    unfolding refers_with_glue_def by blast
  from ex act have qs: "query_servers w s request_bytes (lookup_step + 1) active_servers trace_info =
      Inr (Some (a, d, t), trace_info, s')"
    by simp
  from one_hop_referral[OF qs m(1,2)] m(3)
  have "one_hop w s request_bytes (lookup_step + 1) active_servers trace_info =
      Glue (glue_ips m) (trace_info @ [reply_entry (lookup_step + 1) a t m]) s'"
    by simp
  then have "lookup_loop (Suc fuel) w s request_bytes lookup_step active_servers trace_info =
      lookup_loop fuel w s' request_bytes (lookup_step + 1) (glue_ips m)
        (trace_info @ [reply_entry (lookup_step + 1) a t m])"
    by (simp only: lookup_loop.simps hop.case)
  with Suc.IH[OF m(3)] show ?case by simp
qed

lemma hierarchical_lookup_never_returns:
  assumes "refers_with_glue w" and "parse w request_bytes = Some q"
  shows "hierarchical_lookup fuel w s request_bytes = None"
proof -
  have "lookup_loop fuel w s request_bytes 0 NAME_SERVERS [] = None"
    by (rule lookup_loop_never_returns[OF assms(1)]) (simp add: NAME_SERVERS_def)
  with assms(2) show ?thesis by (simp add: hierarchical_lookup.simps)
qed

lemma refers_with_glue_loop_world: "refers_with_glue loop_world"
  by (simp add: refers_with_glue_def loop_world_def loop_referral_def glue_ips_def A_record_def)

text \<open>
  C1, as the code has it. \<^verbatim>\<open>hierarchical_lookup\<close> has no hop bound, and no failure for
  exceeding one: when every server that is asked answers with a referral carrying glue,
  the lookup of a decodable query never returns, however many iterations it is given.
\<close>

theorem lookup_without_answer_never_returns:
  assumes "refers_with_glue w" and "parse w request_bytes = Some dns_request"
  shows "hierarchical_lookup fuel w s request_bytes = None"
  using assms by (rule hierarchical_lookup_never_returns)

theorem lookup_without_answer_never_returns_witness:
  "refers_with_glue loop_world \<and> parse loop_world [1] = Some example_query \<and>
   hierarchical_lookup 1000 loop_world () [1] = None"
proof -
  have p: "parse loop_world [1] = Some example_query"
    by (simp add: loop_world_def)
  from lookup_without_answer_never_returns[OF refers_with_glue_loop_world p, of 1000 "()"]
    refers_with_glue_loop_world p
  show ?thesis by blast
qed

text \<open>
  The claim fails for the responder that refers every query back to itself: the lookup
  does not end in a failure, it does not end.
\<close>

theorem self_referral_counterexample:
  "\<forall>fuel. hierarchical_lookup fuel loop_world () [1] = None"
proof
  fix fuel
  have "parse loop_world [1] = Some example_query"
    by (simp add: loop_world_def)
  with refers_with_glue_loop_world show "hierarchical_lookup fuel loop_world () [1] = None"
    by (rule hierarchical_lookup_never_returns)
qed

text \<open>
  C7, as the code has it. The reply of the first server that answers is decoded outside
  any \<^verbatim>\<open>try\<close>: when it cannot be decoded, the decoding error leaves the loop, and with
  it \<^verbatim>\<open>hierarchical_lookup\<close>, as an exception, at whatever stage this happens. No
  further server is asked and no trace is returned.
\<close>

theorem undecodable_reply_raises:
  assumes "query_servers w s request_bytes (lookup_step + 1) active_servers trace_info =
             Inr (Some (contacted_server, reply_data, response_time), trace1, s1)"
    and "parse w reply_data = None"
  shows "lookup_loop (Suc fuel) w s request_bytes lookup_step active_servers trace_info =
           Some (Inl DNSError)"
proof -
  from assms have "one_hop w s request_bytes (lookup_step + 1) active_servers trace_info =
      Raised DNSError"
    by (simp add: one_hop_def)
  then show ?thesis by (simp only: lookup_loop.simps hop.case)
qed

theorem undecodable_reply_raises_witness:
  "query_servers garbled_world () [1] (0 + 1) NAME_SERVERS [] =
     Inr (Some (''198.41.0.4'', [99], 800), [], ()) \<and>
   parse garbled_world [99] = None \<and>
   lookup_loop (Suc 2) garbled_world () [1] 0 NAME_SERVERS [] = Some (Inl DNSError)"
proof -
  have h1: "query_servers garbled_world () [1] (0 + 1) NAME_SERVERS [] =
     Inr (Some (''198.41.0.4'', [99], 800), [], ())"
    by code_simp
  have h2: "parse garbled_world [99] = None"
    by code_simp
  from undecodable_reply_raises[OF h1 h2, of 2] h1 h2 show ?thesis by blast
qed

text \<open>
  The claim fails in the network whose first root server sends an undecodable reply:
  the second root server would have answered with a referral that decodes, but it is
  never asked, and the lookup ends with the decoding error.
\<close>

theorem undecodable_reply_counterexample:
  "exchange garbled_world () ''198.41.0.4'' [1] = (Reply [99] 800, ()) \<and>
   parse garbled_world [99] = None \<and>
   exchange garbled_world () ''199.9.14.201'' [1] = (Reply [10] 1250, ()) \<and>
   parse garbled_world [10] = Some root_referral \<and>
   hierarchical_lookup 3 garbled_world () [1] = Some (Inl DNSError)"
  by code_simp

subsection \<open>Step counters and stages along a trace\<close>

lemma lookup_loop_first_stage:
  assumes "lookup_loop (Suc n) w s rq k act tr = Some (Inr (r, tr', s'))"
  shows "(\<exists>j. tr' = tr @ map (timeout_entry (k + 1)) (take j act)) \<or>
         (\<exists>j srv t m rest. tr' = tr @ map (timeout_entry (k + 1)) (take j act) @
                              reply_entry (k + 1) srv t m # rest)"
proof (cases "query_servers w s rq (k + 1) act tr")
  case (Inl e)
  then have "one_hop w s rq (k + 1) act tr = Raised e" by (simp add: one_hop_def)
  with assms show ?thesis by (simp add: lookup_loop.simps)
next
  case (Inr res)
  obtain q tr1 s1 where res: "res = (q, tr1, s1)" by (cases res)
  from query_servers_shape[OF Inr[unfolded res]] obtain j where
    tr1: "tr1 = tr @ map (timeout_entry (k + 1)) (take j act)" by blast
  show ?thesis
  proof (cases q)
    case None
    with Inr res have "one_hop w s rq (k + 1) act tr = Finished None tr1 s1"
      by (simp add: one_hop_def)
    with assms have "tr' = tr1" by (simp add: lookup_loop.simps)
    with tr1 show ?thesis by blast
  next
    case (Some a)
    obtain srv d t where a: "a = (srv, d, t)" by (cases a)
    with Inr res Some have qs: "query_servers w s rq (k + 1) act tr =
        Inr (Some (srv, d, t), tr1, s1)" by simp
    show ?thesis
    proof (cases "parse w d")
      case None
      with qs have "one_hop w s rq (k + 1) act tr = Raised DNSError"
        by (simp add: one_hop_def)
      with assms show ?thesis by (simp add: lookup_loop.simps)
    next
      case (Some m)
      from lookup_loop_after_hop[OF assms] one_hop_reply[OF qs Some]
      obtain rest where "tr' = (tr1 @ [reply_entry (k + 1) srv t m]) @ rest" by auto
      with tr1 have "tr' = tr @ map (timeout_entry (k + 1)) (take j act) @
          reply_entry (k + 1) srv t m # rest" by simp
      then show ?thesis by blast
    qed
  qed
qed

lemma replies_Nil [simp]: "replies [] = []"
  by (simp add: replies_def)

lemma replies_timeouts [simp]: "replies (map (timeout_entry k) xs) = []"
  by (induction xs) (simp_all add: replies_def timeout_entry_def)

lemma replies_append [simp]: "replies (xs @ ys) = replies xs @ replies ys"
  by (simp add: replies_def)

lemma replies_reply [simp]: "replies (reply_entry k srv t m # xs) = reply_entry k srv t m # replies xs"
  using phase_not_timeout[of k m] by (simp add: replies_def reply_entry_def)

lemma step_timeout_entry [simp]: "step (timeout_entry k srv) = k"
  by (simp add: timeout_entry_def)

lemma step_reply_entry [simp]: "step (reply_entry k srv t m) = k"
  by (simp add: reply_entry_def)

lemma stage_first_reply [simp]: "stage (reply_entry (Suc 0) srv t m) = ''Root''"
  by (simp add: reply_entry_def phase_def)

lemma first_stage_facts:
  assumes "lookup_loop n w s rq 0 act [] = Some (Inr (r, tr', s'))"
  shows "(tr' \<noteq> [] \<longrightarrow> step (hd tr') = 1) \<and>
         (replies tr' \<noteq> [] \<longrightarrow> stage (hd (replies tr')) = ''Root'')"
proof (cases n)
  case 0
  with assms show ?thesis by (simp add: lookup_loop.simps)
next
  case (Suc n')
  from lookup_loop_first_stage[OF assms[unfolded Suc]]
  consider j where "tr' = map (timeout_entry 1) (take j act)"
    | j srv t m rest where
      "tr' = map (timeout_entry 1) (take j act) @ reply_entry 1 srv t m # rest"
    by auto
  then show ?thesis
  proof cases
    case 1
    then have "replies tr' = []" by simp
    with 1 show ?thesis by (cases "take j act") auto
  next
    case 2
    then have "replies tr' = reply_entry 1 srv t m # replies rest" by simp
    with 2 show ?thesis by (cases "take j act") auto
  qed
qed

lemma lookup_loop_monotone:
  assumes "no_glueless_referral w"
  shows "lookup_loop n w s rq k act tr = Some (Inr (r, tr', s')) \<Longrightarrow>
         \<exists>t. tr' = tr @ t \<and> (\<forall>e\<in>set t. k < step e) \<and> sorted (map step t) \<and>
             map step (replies t) = [k + 1 ..< k + 1 + length (replies t)]"
proof (induction n arbitrary: s k act tr)
  case 0
  then show ?case by (simp add: lookup_loop.simps)
next
  case (Suc n)
  note run = Suc.prems
  show ?case
  proof (cases "query_servers w s rq (k + 1) act tr")
    case (Inl e)
    then have "one_hop w s rq (k + 1) act tr = Raised e" by (simp add: one_hop_def)
    with run show ?thesis by (simp add: lookup_loop.simps)
  next
    case (Inr res)
    obtain q tr1 s1 where res: "res = (q, tr1, s1)" by (cases res)
    from query_servers_shape[OF Inr[unfolded res]] obtain j where
      tr1: "tr1 = tr @ map (timeout_entry (k + 1)) (take j act)" by blast
    let ?to = "map (timeout_entry (k + 1)) (take j act)"
    have to_steps: "map step ?to = replicate (length (take j act)) (k + 1)"
      by (simp add: map_replicate_const[symmetric] comp_def del: length_take)
    show ?thesis
    proof (cases q)
      case None
      with Inr res have "one_hop w s rq (k + 1) act tr = Finished None tr1 s1"
        by (simp add: one_hop_def)
      with run have "tr' = tr @ ?to" using tr1 by (simp add: lookup_loop.simps)
      moreover have "\<forall>e\<in>set ?to. k < step e" by auto
      moreover have "sorted (map step ?to)" unfolding to_steps by (simp add: sorted_replicate)
      moreover have "map step (replies ?to) = [k + 1 ..< k + 1 + length (replies ?to)]" by simp
      ultimately show ?thesis by blast
    next
      case (Some a)
      obtain srv d t where a: "a = (srv, d, t)" by (cases a)
      with Inr res Some have qs: "query_servers w s rq (k + 1) act tr =
          Inr (Some (srv, d, t), tr1, s1)" by simp
      show ?thesis
      proof (cases "parse w d")
        case None
        with qs have "one_hop w s rq (k + 1) act tr = Raised DNSError"
          by (simp add: one_hop_def)
        with run show ?thesis by (simp add: lookup_loop.simps)
      next
        case (Some m)
        let ?e = "reply_entry (k + 1) srv t m"
        have "\<exists>t2. tr' = (tr1 @ [?e]) @ t2 \<and> (\<forall>e\<in>set t2. k + 1 < step e) \<and>
            sorted (map step t2) \<and>
            map step (replies t2) = [k + 1 + 1 ..< k + 1 + 1 + length (replies t2)]"
        proof (cases "rr m = []")
          case False
          with qs Some have "one_hop w s rq (k + 1) act tr = Finished (Some d) (tr1 @ [?e]) s1"
            by (simp add: one_hop_def Let_def)
          with run have "tr' = (tr1 @ [?e]) @ []" by (simp add: lookup_loop.simps)
          then show ?thesis by (intro exI[of _ "[]"]) simp
        next
          case True
          note hop = one_hop_referral[OF qs Some True]
          show ?thesis
          proof (cases "glue_ips m = []")
            case True
            with assms Some \<open>rr m = []\<close> have "ns_names m = []"
              unfolding no_glueless_referral_def by blast
            with hop True have "one_hop w s rq (k + 1) act tr = Finished None (tr1 @ [?e]) s1"
              by simp
            with run have "tr' = (tr1 @ [?e]) @ []" by (simp add: lookup_loop.simps)
            then show ?thesis by (intro exI[of _ "[]"]) simp
          next
            case False
            with hop have "one_hop w s rq (k + 1) act tr = Glue (glue_ips m) (tr1 @ [?e]) s1"
              by simp
            with run have "lookup_loop n w s1 rq (k + 1) (glue_ips m) (tr1 @ [?e]) =
                Some (Inr (r, tr', s'))"
              by (simp add: lookup_loop.simps)
            from Suc.IH[OF this] show ?thesis .
          qed
        qed
        then obtain t2 where t2: "tr' = (tr1 @ [?e]) @ t2" "\<forall>e\<in>set t2. k + 1 < step e"
          "sorted (map step t2)"
          "map step (replies t2) = [k + 1 + 1 ..< k + 1 + 1 + length (replies t2)]"
          by blast
        let ?t = "?to @ ?e # t2"
        have "tr' = tr @ ?t" using t2(1) tr1 by simp
        moreover have "\<forall>e\<in>set ?t. k < step e" using t2(2) by auto
        moreover have "sorted (map step ?t)"
          using t2(2,3) unfolding map_append to_steps
          by (auto simp: sorted_append less_imp_le)
        moreover have "map step (replies ?t) = [k + 1 ..< k + 1 + length (replies ?t)]"
        proof -
          have len: "length (replies ?t) = Suc (length (replies t2))" by simp
          have "map step (replies ?t) = (k + 1) # map step (replies t2)" by simp
          also have "\<dots> = (k + 1) # [Suc (k + 1) ..< Suc (k + 1) + length (replies t2)]"
            using t2(4) by simp
          also have "\<dots> = [k + 1 ..< k + 1 + Suc (length (replies t2))]"
            by (simp add: upt_conv_Cons del: upt_Suc)
          finally show ?thesis unfolding len .
        qed
        ultimately show ?thesis by blast
      qed
    qed
  qed
qed


lemma no_glueless_referral_demo_world: "no_glueless_referral demo_world"
  by (auto simp: no_glueless_referral_def demo_world_def demo_parse_def example_query_def
      root_referral_def tld_referral_def final_answer_def glue_ips_def ns_names_def
      A_record_def split: if_splits)

text \<open>The lookup of \<open>example.org.\<close> in the network with the referral without glue.\<close>

lemma glueless_run:
  "hierarchical_lookup 3 glueless_world 0 [2] =
     Some (Inr (Some [23],
       [reply_entry 1 ''198.41.0.4'' 1500 org_referral,
        reply_entry 2 ''199.19.56.1'' 1800 glueless_referral,
        reply_entry 1 ''198.41.0.4'' 1400 ns_answer,
        reply_entry 3 ''199.4.138.53'' 900 org_answer], ''example.org.'', 4))"
  by code_simp

text \<open>
  C5, as the code has it. In every returned trace each step is at least 1 and the first
  entry has step 1; each stage is one of \<open>Root\<close>, \<open>TLD\<close>, \<open>Authoritative\<close> and
  \<open>Timeout\<close>; the first entry that is not a timeout has stage \<open>Root\<close>. The steps do
  not increase strictly: the timeouts of a stage and the reply of that stage carry the
  same step, and a nested lookup numbers its entries from 1 again. When no nested lookup
  can occur, the steps never decrease, and the entries that are not timeouts carry the
  steps 1, 2, 3 and so on, in this order.
\<close>

theorem trace_steps_and_stages:
  assumes "hierarchical_lookup fuel w s request_bytes =
             Some (Inr (final_response, trace_info, target_name, s'))"
  shows "(\<forall>e\<in>set trace_info.
            1 \<le> step e \<and> stage e \<in> {''Root'', ''TLD'', ''Authoritative'', ''Timeout''}) \<and>
         (trace_info \<noteq> [] \<longrightarrow> step (hd trace_info) = 1) \<and>
         (replies trace_info \<noteq> [] \<longrightarrow> stage (hd (replies trace_info)) = ''Root'') \<and>
         (no_glueless_referral w \<longrightarrow>
            sorted (map step trace_info) \<and>
            map step (replies trace_info) = [1 ..< 1 + length (replies trace_info)])"
proof -
  from assms have ll: "lookup_loop fuel w s request_bytes 0 NAME_SERVERS [] =
      Some (Inr (final_response, trace_info, s'))"
    by (auto simp: hierarchical_lookup.simps split: option.splits sum.splits)
  have "\<forall>e\<in>set trace_info.
      1 \<le> step e \<and> stage e \<in> {''Root'', ''TLD'', ''Authoritative'', ''Timeout''}"
    using traces_extend(3)[rule_format, OF assms] made_entry_fields(3,4) by blast
  moreover note first_stage_facts[OF ll]
  moreover have "no_glueless_referral w \<longrightarrow>
      sorted (map step trace_info) \<and>
      map step (replies trace_info) = [1 ..< 1 + length (replies trace_info)]"
  proof
    assume "no_glueless_referral w"
    from lookup_loop_monotone[OF this ll]
    show "sorted (map step trace_info) \<and>
      map step (replies trace_info) = [1 ..< 1 + length (replies trace_info)]"
      by simp
  qed
  ultimately show ?thesis by blast
qed

theorem trace_steps_and_stages_witness:
  "hierarchical_lookup 3 demo_world () [1] =
     Some (Inr (Some [12],
       [timeout_entry 1 ''198.41.0.4'',
        reply_entry 1 ''199.9.14.201'' 1250 root_referral,
        reply_entry 2 ''192.5.6.30'' 2034 tld_referral,
        reply_entry 3 ''199.43.135.53'' 987 final_answer], ''example.com.'', ())) \<and>
   no_glueless_referral demo_world \<and>
   map step [timeout_entry 1 ''198.41.0.4'',
        reply_entry 1 ''199.9.14.201'' 1250 root_referral,
        reply_entry 2 ''192.5.6.30'' 2034 tld_referral,
        reply_entry 3 ''199.43.135.53'' 987 final_answer] = [1, 1, 2, 3] \<and>
   map stage [timeout_entry 1 ''198.41.0.4'',
        reply_entry 1 ''199.9.14.201'' 1250 root_referral,
        reply_entry 2 ''192.5.6.30'' 2034 tld_referral,
        reply_entry 3 ''199.43.135.53'' 987 final_answer] =
     [''Timeout'', ''Root'', ''TLD'', ''Authoritative''] \<and>
   sorted (map step [timeout_entry 1 ''198.41.0.4'',
        reply_entry 1 ''199.9.14.201'' 1250 root_referral,
        reply_entry 2 ''192.5.6.30'' 2034 tld_referral,
        reply_entry 3 ''199.43.135.53'' 987 final_answer]) \<and>
   map step (replies [timeout_entry 1 ''198.41.0.4'',
        reply_entry 1 ''199.9.14.201'' 1250 root_referral,
        reply_entry 2 ''192.5.6.30'' 2034 tld_referral,
        reply_entry 3 ''199.43.135.53'' 987 final_answer]) = [1, 2, 3]"
proof -
  have st: "map stage [timeout_entry 1 ''198.41.0.4'',
        reply_entry 1 ''199.9.14.201'' 1250 root_referral,
        reply_entry 2 ''192.5.6.30'' 2034 tld_referral,
        reply_entry 3 ''199.43.135.53'' 987 final_answer] =
     [''Timeout'', ''Root'', ''TLD'', ''Authoritative'']"
    by code_simp
  from trace_steps_and_stages[OF demo_run] no_glueless_referral_demo_world
  have "sorted (map step [timeout_entry 1 ''198.41.0.4'',
        reply_entry 1 ''199.9.14.201'' 1250 root_referral,
        reply_entry 2 ''192.5.6.30'' 2034 tld_referral,
        reply_entry 3 ''199.43.135.53'' 987 final_answer]) \<and>
   map step (replies [timeout_entry 1 ''198.41.0.4'',
        reply_entry 1 ''199.9.14.201'' 1250 root_referral,
        reply_entry 2 ''192.5.6.30'' 2034 tld_referral,
        reply_entry 3 ''199.43.135.53'' 987 final_answer]) =
     [1 ..< 1 + length (replies [timeout_entry 1 ''198.41.0.4'',
        reply_entry 1 ''199.9.14.201'' 1250 root_referral,
        reply_entry 2 ''192.5.6.30'' 2034 tld_referral,
        reply_entry 3 ''199.43.135.53'' 987 final_answer])]"
    by blast
  moreover have "replies [timeout_entry 1 ''198.41.0.4'',
        reply_entry 1 ''199.9.14.201'' 1250 root_referral,
        reply_entry 2 ''192.5.6.30'' 2034 tld_referral,
        reply_entry 3 ''199.43.135.53'' 987 final_answer] =
      [reply_entry 1 ''199.9.14.201'' 1250 root_referral,
        reply_entry 2 ''192.5.6.30'' 2034 tld_referral,
        reply_entry 3 ''199.43.135.53'' 987 final_answer]"
    by code_simp
  ultimately show ?thesis
    using demo_run no_glueless_referral_demo_world st by simp
qed

text \<open>
  The claim fails in both example networks. In the small network the timeout of the first
  root server and the reply of the second both carry step 1. In the network with the
  referral without glue the nested lookup starts again at step 1 after the parent's
  step 2.
\<close>

theorem steps_not_strictly_increasing_counterexample:
  "hierarchical_lookup 3 demo_world () [1] =
     Some (Inr (Some [12],
       [timeout_entry 1 ''198.41.0.4'',
        reply_entry 1 ''199.9.14.201'' 1250 root_referral,
        reply_entry 2 ''192.5.6.30'' 2034 tld_referral,
        reply_entry 3 ''199.43.135.53'' 987 final_answer], ''example.com.'', ())) \<and>
   \<not> sorted_wrt (<) (map step
       [timeout_entry 1 ''198.41.0.4'',
        reply_entry 1 ''199.9.14.201'' 1250 root_referral,
        reply_entry 2 ''192.5.6.30'' 2034 tld_referral,
        reply_entry 3 ''199.43.135.53'' 987 final_answer]) \<and>
   hierarchical_lookup 3 glueless_world 0 [2] =
     Some (Inr (Some [23],
       [reply_entry 1 ''198.41.0.4'' 1500 org_referral,
        reply_entry 2 ''199.19.56.1'' 1800 glueless_referral,
        reply_entry 1 ''198.41.0.4'' 1400 ns_answer,
        reply_entry 3 ''199.4.138.53'' 900 org_answer], ''example.org.'', 4)) \<and>
   map step
       [reply_entry 1 ''198.41.0.4'' 1500 org_referral,
        reply_entry 2 ''199.19.56.1'' 1800 glueless_referral,
        reply_entry 1 ''198.41.0.4'' 1400 ns_answer,
        reply_entry 3 ''199.4.138.53'' 900 org_answer] = [1, 2, 1, 3]"
  using demo_run glueless_run by simp

section \<open>Properties of the caching resolver\<close>

lemma answer_addresses_nonempty:
  "answer_addresses auth_response \<noteq> [] \<Longrightarrow> answer auth_response \<noteq> []"
  by (auto simp: answer_addresses_def)

lemma authoritative_phase_addresses:
  assumes "udp env s authoritative_server query_target = (Inr auth_response, s3)"
    and "answer_addresses auth_response \<noteq> []"
  shows "authoritative_phase env current_time hostname query_target authoritative_server log s =
     (Some (answer_addresses auth_response),
      log @ [reply_line current_time hostname (py_str authoritative_server) ''Authoritative''
               (py_repr (answer_addresses auth_response))
               (perf_counter env s3 - perf_counter env s)], s3)"
  using assms answer_addresses_nonempty[OF assms(2)]
  by (simp add: authoritative_phase_def Let_def)

lemma cache_hit:
  assumes "map_of (domain_cache st) hostname = Some cached"
  shows "step_by_step_lookup env st hostname =
     Inr ((Some cached, 0, ''HIT''),
          st\<lparr>trace_log := trace_log st @ [cache_hit_line (now env (net st)) hostname cached]\<rparr>)"
  using assms by (simp add: step_by_step_lookup_def Let_def)

lemma cache_hit_marker: "suffix ''Cache HIT'' (cache_hit_line current_time hostname cached)"
proof (rule suffixI)
  show "cache_hit_line current_time hostname cached =
      (line_prefix current_time hostname ''CACHE'' @ '' | Step: Cache | Response: '' @
       py_repr cached @ '' | RTT: 0 ms | Total: 0 ms | '') @ ''Cache HIT''"
    by (simp add: cache_hit_line_def)
qed

lemma lookup_stores:
  assumes "map_of (domain_cache st) hostname = None"
    and "from_text env hostname = Some query_target"
    and "root_phase env (now env (net st)) hostname query_target PRIMARY_SERVERS 0
           (trace_log st) (net st) = (Some tld_server, rtt1, log1, s1)"
    and "tld_phase env (now env (net st)) hostname query_target tld_server rtt1 log1 s1 =
           (Inr authoritative_server, rtt2, log2, s2)"
    and "udp env s2 authoritative_server query_target = (Inr auth_response, s3)"
    and "answer_addresses auth_response \<noteq> []"
  shows "step_by_step_lookup env st hostname =
     Inr ((Some (answer_addresses auth_response),
           perf_counter env s3 - perf_counter env (net st), ''MISS''),
          st\<lparr>domain_cache :=
               AList.update hostname (answer_addresses auth_response) (domain_cache st),
             trace_log := log2 @
               [reply_line (now env (net st)) hostname (py_str authoritative_server)
                  ''Authoritative'' (py_repr (answer_addresses auth_response))
                  (perf_counter env s3 - perf_counter env s2),
                total_line (now env (net st)) hostname
                  (perf_counter env s3 - perf_counter env (net st)) ''Cache Stored''],
             net := s3\<rparr>)"
proof -
  from assms(6) obtain a more_addresses where
    a: "answer_addresses auth_response = a # more_addresses"
    by (cases "answer_addresses auth_response") auto
  show ?thesis
    using assms(1-4) authoritative_phase_addresses[OF assms(5,6)] a
    by (simp add: step_by_step_lookup_def Let_def)
qed


lemma authoritative_phase_no_address:
  assumes "udp env s authoritative_server query_target = (Inr auth_response, s3)"
    and "answer auth_response \<noteq> []"
    and "answer_addresses auth_response = []"
  shows "authoritative_phase env current_time hostname query_target authoritative_server log s =
     (Some [],
      log @ [reply_line current_time hostname (py_str authoritative_server) ''Authoritative''
               (py_repr []) (perf_counter env s3 - perf_counter env s)], s3)"
  using assms by (simp add: authoritative_phase_def Let_def)

lemma lookup_stores_nothing:
  assumes "map_of (domain_cache st) hostname = None"
    and "from_text env hostname = Some query_target"
    and "root_phase env (now env (net st)) hostname query_target PRIMARY_SERVERS 0
           (trace_log st) (net st) = (Some tld_server, rtt1, log1, s1)"
    and "tld_phase env (now env (net st)) hostname query_target tld_server rtt1 log1 s1 =
           (Inr authoritative_server, rtt2, log2, s2)"
    and "udp env s2 authoritative_server query_target = (Inr auth_response, s3)"
    and "answer auth_response \<noteq> []"
    and "answer_addresses auth_response = []"
  shows "step_by_step_lookup env st hostname =
     Inr ((Some [], perf_counter env s3 - perf_counter env (net st), ''MISS''),
          st\<lparr>trace_log := log2 @
               [reply_line (now env (net st)) hostname (py_str authoritative_server)
                  ''Authoritative'' (py_repr [])
                  (perf_counter env s3 - perf_counter env s2),
                total_line (now env (net st)) hostname
                  (perf_counter env s3 - perf_counter env (net st)) ''No Response''],
             net := s3\<rparr>)"
  using assms(1-4) authoritative_phase_no_address[OF assms(5,6,7)]
  by (simp add: step_by_step_lookup_def Let_def)

text \<open>
  With a library in which the subscript on \<^verbatim>\<open>items\<close> raises, no lookup gets past the
  root servers: every reply that names a server for the top-level domain ends in the
  exception, and the next root server is asked. A name that is not cached is then never
  resolved and never stored.
\<close>

lemma root_phase_items_as_dict:
  assumes "item_zero env = items_as_dict"
  shows "fst (root_phase env current_time hostname query_target servers accumulated_rtt log s) =
     None"
proof (induction servers arbitrary: accumulated_rtt log s)
  case Nil
  then show ?case by simp
next
  case (Cons root_server rest)
  obtain res s1 where ex: "udp env s (Some root_server) query_target = (res, s1)"
    by (cases "udp env s (Some root_server) query_target")
  show ?case
  proof (cases res)
    case (Inl error)
    with ex Cons.IH show ?thesis by simp
  next
    case (Inr root_response)
    have "first_address env root_response = Inr None \<or>
        first_address env root_response = Inl ''0''"
      using assms by (simp add: first_address_def items_as_dict_def split: option.splits)
    with ex Inr Cons.IH show ?thesis by (auto simp: Let_def)
  qed
qed

lemma lookup_with_items_as_dict:
  assumes "item_zero env = items_as_dict"
    and "map_of (domain_cache st) hostname = None"
    and "step_by_step_lookup env st hostname = Inr ((resolved, elapsed, flag), st')"
  shows "resolved = None \<and> flag = ''MISS'' \<and> domain_cache st' = domain_cache st"
proof -
  from assms(2,3) obtain query_target where q: "from_text env hostname = Some query_target"
    by (auto simp: step_by_step_lookup_def Let_def split: option.splits)
  obtain r a l s1 where rp: "root_phase env (now env (net st)) hostname query_target
      PRIMARY_SERVERS 0 (trace_log st) (net st) = (r, a, l, s1)"
    by (cases "root_phase env (now env (net st)) hostname query_target
      PRIMARY_SERVERS 0 (trace_log st) (net st)")
  with root_phase_items_as_dict[OF assms(1), of "now env (net st)" hostname query_target
      PRIMARY_SERVERS 0 "trace_log st" "net st"]
  have "r = None" by simp
  with assms(2,3) q rp show ?thesis
    by (auto simp: step_by_step_lookup_def Let_def)
qed

text \<open>
  C2, as the code has it. In \<^verbatim>\<open>step_by_step_lookup\<close>, when a name that is not cached
  reaches an authoritative reply, the addresses are the members of the address records
  (type 1) of its answer. When there is at least one, the lookup returns these addresses
  with the flag \<open>MISS\<close>, logs them and the line \<open>Cache Stored\<close>, and stores them in the
  cache under the host name; a second lookup of the same name then returns the cached
  addresses with the time 0 and the flag \<open>HIT\<close>, and adds one log line, which ends in
  \<open>Cache HIT\<close>. When the answer is not empty but holds no address record, the lookup
  returns the empty list with the flag \<open>MISS\<close>, logs the line \<open>No Response\<close> and
  leaves the cache as it was. Both statements are about a lookup whose first two phases
  name a server, which needs a library in which \<^verbatim>\<open>items\<close> is a list; with the other
  one the lookup ends at the root servers, as the lemmas above say. In
  \<^verbatim>\<open>hierarchical_lookup\<close>, which has no cache, a decoded reply with answer records is
  entered in the trace, with one summary line per answer record, and ends the loop as
  the final response.
\<close>

theorem answer_is_returned_and_cached:
  assumes "addresses =
      concat (map items (filter (\<lambda>answer_rr. rdtype answer_rr = 1) (answer auth_response)))"
  shows
  "(map_of (domain_cache st) hostname = None \<and>
    from_text env hostname = Some query_target \<and>
    root_phase env (now env (net st)) hostname query_target PRIMARY_SERVERS 0
      (trace_log st) (net st) = (Some tld_server, rtt1, log1, s1) \<and>
    tld_phase env (now env (net st)) hostname query_target tld_server rtt1 log1 s1 =
      (Inr authoritative_server, rtt2, log2, s2) \<and>
    udp env s2 authoritative_server query_target = (Inr auth_response, s3) \<and>
    addresses \<noteq> [] \<longrightarrow>
    (\<exists>st'.
       step_by_step_lookup env st hostname =
         Inr ((Some addresses, perf_counter env s3 - perf_counter env (net st), ''MISS''),
              st') \<and>
       map_of (domain_cache st') hostname = Some addresses \<and>
       trace_log st' = log2 @
         [reply_line (now env (net st)) hostname (py_str authoritative_server)
            ''Authoritative'' (py_repr addresses)
            (perf_counter env s3 - perf_counter env s2),
          total_line (now env (net st)) hostname
            (perf_counter env s3 - perf_counter env (net st)) ''Cache Stored''] \<and>
       step_by_step_lookup env st' hostname =
         Inr ((Some addresses, 0, ''HIT''),
              st'\<lparr>trace_log := trace_log st' @
                [cache_hit_line (now env (net st')) hostname addresses]\<rparr>) \<and>
       suffix ''Cache HIT'' (cache_hit_line (now env (net st')) hostname addresses)))
   \<and>
   (map_of (domain_cache st) hostname = None \<and>
    from_text env hostname = Some query_target \<and>
    root_phase env (now env (net st)) hostname query_target PRIMARY_SERVERS 0
      (trace_log st) (net st) = (Some tld_server, rtt1, log1, s1) \<and>
    tld_phase env (now env (net st)) hostname query_target tld_server rtt1 log1 s1 =
      (Inr authoritative_server, rtt2, log2, s2) \<and>
    udp env s2 authoritative_server query_target = (Inr auth_response, s3) \<and>
    answer auth_response \<noteq> [] \<and> addresses = [] \<longrightarrow>
    (\<exists>st'.
       step_by_step_lookup env st hostname =
         Inr ((Some [], perf_counter env s3 - perf_counter env (net st), ''MISS''), st') \<and>
       domain_cache st' = domain_cache st \<and>
       map_of (domain_cache st') hostname = None \<and>
       trace_log st' = log2 @
         [reply_line (now env (net st)) hostname (py_str authoritative_server)
            ''Authoritative'' (py_repr []) (perf_counter env s3 - perf_counter env s2),
          total_line (now env (net st)) hostname
            (perf_counter env s3 - perf_counter env (net st)) ''No Response'']))
   \<and>
   (query_servers w s request_bytes (lookup_step + 1) active_servers trace_info =
      Inr (Some (contacted_server, reply_data, response_time), trace1, sA) \<and>
    parse w reply_data = Some parsed_reply \<and> rr parsed_reply \<noteq> [] \<longrightarrow>
    lookup_loop (Suc fuel) w s request_bytes lookup_step active_servers trace_info =
      Some (Inr (Some reply_data,
        trace1 @ [reply_entry (lookup_step + 1) contacted_server response_time parsed_reply],
        sA)) \<and>
    response (reply_entry (lookup_step + 1) contacted_server response_time parsed_reply) =
      map (\<lambda>record. rname record @ '' -> '' @ show_nat (rtype record) @ '' -> '' @
                     rdata record) (rr parsed_reply))"
proof (intro conjI impI)
  have addrs: "answer_addresses auth_response = addresses"
    unfolding assms by (simp add: answer_addresses_def)
  {
    assume a: "map_of (domain_cache st) hostname = None \<and>
      from_text env hostname = Some query_target \<and>
      root_phase env (now env (net st)) hostname query_target PRIMARY_SERVERS 0
        (trace_log st) (net st) = (Some tld_server, rtt1, log1, s1) \<and>
      tld_phase env (now env (net st)) hostname query_target tld_server rtt1 log1 s1 =
        (Inr authoritative_server, rtt2, log2, s2) \<and>
      udp env s2 authoritative_server query_target = (Inr auth_response, s3) \<and>
      addresses \<noteq> []"
    let ?st' = "st\<lparr>domain_cache := AList.update hostname addresses (domain_cache st),
               trace_log := log2 @
                 [reply_line (now env (net st)) hostname (py_str authoritative_server)
                    ''Authoritative'' (py_repr addresses)
                    (perf_counter env s3 - perf_counter env s2),
                  total_line (now env (net st)) hostname
                    (perf_counter env s3 - perf_counter env (net st)) ''Cache Stored''],
               net := s3\<rparr>"
    from a have a1: "map_of (domain_cache st) hostname = None"
      and a2: "from_text env hostname = Some query_target"
      and a3: "root_phase env (now env (net st)) hostname query_target PRIMARY_SERVERS 0
        (trace_log st) (net st) = (Some tld_server, rtt1, log1, s1)"
      and a4: "tld_phase env (now env (net st)) hostname query_target tld_server rtt1 log1 s1 =
        (Inr authoritative_server, rtt2, log2, s2)"
      and a5: "udp env s2 authoritative_server query_target = (Inr auth_response, s3)"
      and a6: "answer_addresses auth_response \<noteq> []"
      unfolding addrs by simp_all
    have run: "step_by_step_lookup env st hostname =
        Inr ((Some addresses, perf_counter env s3 - perf_counter env (net st), ''MISS''), ?st')"
      using lookup_stores[OF a1 a2 a3 a4 a5 a6] unfolding addrs .
    have cached: "map_of (domain_cache ?st') hostname = Some addresses"
      by (simp add: update_conv')
    have log: "trace_log ?st' = log2 @
           [reply_line (now env (net st)) hostname (py_str authoritative_server)
              ''Authoritative'' (py_repr addresses) (perf_counter env s3 - perf_counter env s2),
            total_line (now env (net st)) hostname
              (perf_counter env s3 - perf_counter env (net st)) ''Cache Stored'']"
      by simp
    note hit = cache_hit[OF cached, of env]
    note marker = cache_hit_marker[of "now env (net ?st')" hostname addresses]
    from run cached log hit marker
    show "\<exists>st'.
         step_by_step_lookup env st hostname =
           Inr ((Some addresses, perf_counter env s3 - perf_counter env (net st), ''MISS''),
                st') \<and>
         map_of (domain_cache st') hostname = Some addresses \<and>
         trace_log st' = log2 @
           [reply_line (now env (net st)) hostname (py_str authoritative_server)
              ''Authoritative'' (py_repr addresses) (perf_counter env s3 - perf_counter env s2),
            total_line (now env (net st)) hostname
              (perf_counter env s3 - perf_counter env (net st)) ''Cache Stored''] \<and>
         step_by_step_lookup env st' hostname =
           Inr ((Some addresses, 0, ''HIT''),
                st'\<lparr>trace_log := trace_log st' @
                  [cache_hit_line (now env (net st')) hostname addresses]\<rparr>) \<and>
         suffix ''Cache HIT'' (cache_hit_line (now env (net st')) hostname addresses)"
      by (intro exI[of _ ?st'] conjI)
  next
    assume a: "map_of (domain_cache st) hostname = None \<and>
      from_text env hostname = Some query_target \<and>
      root_phase env (now env (net st)) hostname query_target PRIMARY_SERVERS 0
        (trace_log st) (net st) = (Some tld_server, rtt1, log1, s1) \<and>
      tld_phase env (now env (net st)) hostname query_target tld_server rtt1 log1 s1 =
        (Inr authoritative_server, rtt2, log2, s2) \<and>
      udp env s2 authoritative_server query_target = (Inr auth_response, s3) \<and>
      answer auth_response \<noteq> [] \<and> addresses = []"
    let ?st' = "st\<lparr>trace_log := log2 @
                 [reply_line (now env (net st)) hostname (py_str authoritative_server)
                    ''Authoritative'' (py_repr [])
                    (perf_counter env s3 - perf_counter env s2),
                  total_line (now env (net st)) hostname
                    (perf_counter env s3 - perf_counter env (net st)) ''No Response''],
               net := s3\<rparr>"
    from a have a1: "map_of (domain_cache st) hostname = None"
      and a2: "from_text env hostname = Some query_target"
      and a3: "root_phase env (now env (net st)) hostname query_target PRIMARY_SERVERS 0
        (trace_log st) (net st) = (Some tld_server, rtt1, log1, s1)"
      and a4: "tld_phase env (now env (net st)) hostname query_target tld_server rtt1 log1 s1 =
        (Inr authoritative_server, rtt2, log2, s2)"
      and a5: "udp env s2 authoritative_server query_target = (Inr auth_response, s3)"
      and a6: "answer auth_response \<noteq> []"
      and a7: "answer_addresses auth_response = []"
      unfolding addrs by simp_all
    have run: "step_by_step_lookup env st hostname =
        Inr ((Some [], perf_counter env s3 - perf_counter env (net st), ''MISS''), ?st')"
      by (rule lookup_stores_nothing[OF a1 a2 a3 a4 a5 a6 a7])
    have same: "domain_cache ?st' = domain_cache st" by simp
    have none: "map_of (domain_cache ?st') hostname = None" using a1 by simp
    have log: "trace_log ?st' = log2 @
           [reply_line (now env (net st)) hostname (py_str authoritative_server)
              ''Authoritative'' (py_repr []) (perf_counter env s3 - perf_counter env s2),
            total_line (now env (net st)) hostname
              (perf_counter env s3 - perf_counter env (net st)) ''No Response'']"
      by simp
    from run same none log
    show "\<exists>st'.
         step_by_step_lookup env st hostname =
           Inr ((Some [], perf_counter env s3 - perf_counter env (net st), ''MISS''), st') \<and>
         domain_cache st' = domain_cache st \<and>
         map_of (domain_cache st') hostname = None \<and>
         trace_log st' = log2 @
           [reply_line (now env (net st)) hostname (py_str authoritative_server)
              ''Authoritative'' (py_repr []) (perf_counter env s3 - perf_counter env s2),
            total_line (now env (net st)) hostname
              (perf_counter env s3 - perf_counter env (net st)) ''No Response'']"
      by (intro exI[of _ ?st'] conjI)
  next
    assume b: "query_servers w s request_bytes (lookup_step + 1) active_servers trace_info =
        Inr (Some (contacted_server, reply_data, response_time), trace1, sA) \<and>
      parse w reply_data = Some parsed_reply \<and> rr parsed_reply \<noteq> []"
    then have "one_hop w s request_bytes (lookup_step + 1) active_servers trace_info =
        Finished (Some reply_data)
          (trace1 @ [reply_entry (lookup_step + 1) contacted_server response_time parsed_reply])
          sA"
      by (simp add: one_hop_def Let_def)
    then show "lookup_loop (Suc fuel) w s request_bytes lookup_step active_servers trace_info =
        Some (Inr (Some reply_data,
          trace1 @ [reply_entry (lookup_step + 1) contacted_server response_time parsed_reply],
          sA))"
      by (simp only: lookup_loop.simps hop.case)
  next
    assume b: "query_servers w s request_bytes (lookup_step + 1) active_servers trace_info =
        Inr (Some (contacted_server, reply_data, response_time), trace1, sA) \<and>
      parse w reply_data = Some parsed_reply \<and> rr parsed_reply \<noteq> []"
    then show "response (reply_entry (lookup_step + 1) contacted_server response_time
          parsed_reply) =
        map (\<lambda>record. rname record @ '' -> '' @ show_nat (rtype record) @ '' -> '' @
                       rdata record) (rr parsed_reply)"
      by (simp add: reply_entry_def reply_summary_def record_line_def)
  }
qed

lemmas lab_simps = step_by_step_lookup_def authoritative_phase_def answer_addresses_def
  lab_env_def lab_udp_def fresh_state_def PRIMARY_SERVERS_def tld_phase_def
  first_address_def items_as_list_def lab_root_reply_def lab_tld_reply_def
  lab_alias_reply_def py_str_def py_repr_def Let_def

theorem answer_is_returned_and_cached_witness:
  "udp lab_env 3 (Some ''199.43.135.53'') ''example.com.'' = (Inr lab_answer, 4) \<and>
   [''93.184.216.34''] =
     concat (map items (filter (\<lambda>answer_rr. rdtype answer_rr = 1) (answer lab_answer))) \<and>
   (\<exists>st'.
      step_by_step_lookup lab_env fresh_state ''example.com'' =
        Inr ((Some [''93.184.216.34''], 5000, ''MISS''), st') \<and>
      map_of (domain_cache st') ''example.com'' = Some [''93.184.216.34''] \<and>
      step_by_step_lookup lab_env st' ''example.com'' =
        Inr ((Some [''93.184.216.34''], 0, ''HIT''),
             st'\<lparr>trace_log := trace_log st' @
               [cache_hit_line ''2025-10-20 10:00:00'' ''example.com''
                  [''93.184.216.34'']]\<rparr>)) \<and>
   udp lab_env 3 (Some ''199.43.135.53'') ''www.example.com.'' = (Inr lab_alias_reply, 4) \<and>
   [] = concat (map items (filter (\<lambda>answer_rr. rdtype answer_rr = 1)
                  (answer lab_alias_reply))) \<and>
   (\<exists>st'.
      step_by_step_lookup lab_env fresh_state ''www.example.com'' =
        Inr ((Some [], 5000, ''MISS''), st') \<and>
      domain_cache st' = domain_cache fresh_state) \<and>
   lookup_loop (Suc 0) demo_world () [1] 2 [''199.43.135.53''] [] =
     Some (Inr (Some [12], [] @ [reply_entry (2 + 1) ''199.43.135.53'' 987 final_answer], ())) \<and>
   response (reply_entry (2 + 1) ''199.43.135.53'' 987 final_answer) =
     [''example.com. -> 1 -> 93.184.216.34'']"
proof -
  let ?T = "''2025-10-20 10:00:00''"
  let ?h = "''example.com''"
  let ?log1 = "[fail_line ?T ?h ''198.41.0.4'' ''Root'' ''The DNS operation timed out.'',
                reply_line ?T ?h ''199.9.14.201'' ''Root'' ''Referral'' 1250]"
  let ?log2 = "?log1 @ [reply_line ?T ?h ''192.5.6.30'' ''TLD'' ''Referral'' 1250]"
  let ?k = "''www.example.com''"
  let ?klog1 = "[fail_line ?T ?k ''198.41.0.4'' ''Root'' ''The DNS operation timed out.'',
                reply_line ?T ?k ''199.9.14.201'' ''Root'' ''Referral'' 1250]"
  let ?klog2 = "?klog1 @ [reply_line ?T ?k ''192.5.6.30'' ''TLD'' ''Referral'' 1250]"
  have h0: "[''93.184.216.34''] =
      concat (map items (filter (\<lambda>answer_rr. rdtype answer_rr = 1) (answer lab_answer)))"
    by (simp add: lab_answer_def)
  have h1: "map_of (domain_cache fresh_state) ?h = None"
    by (simp add: fresh_state_def)
  have h2: "from_text lab_env ?h = Some ''example.com.''"
    by (simp add: lab_env_def)
  have h3: "root_phase lab_env (now lab_env (net fresh_state)) ?h ''example.com.''
      PRIMARY_SERVERS 0 (trace_log fresh_state) (net fresh_state) =
      (Some ''192.5.6.30'', 1250, ?log1, 2)"
    by (simp add: lab_simps)
  have h4: "tld_phase lab_env (now lab_env (net fresh_state)) ?h ''example.com.''
      ''192.5.6.30'' 1250 ?log1 2 = (Inr (Some ''199.43.135.53''), 2500, ?log2, 3)"
    by (simp add: lab_simps)
  have h5: "udp lab_env 3 (Some ''199.43.135.53'') ''example.com.'' = (Inr lab_answer, 4)"
    by (simp add: lab_env_def lab_udp_def)
  have h6: "[''93.184.216.34''] \<noteq> []" by simp
  have k0: "[] = concat (map items (filter (\<lambda>answer_rr. rdtype answer_rr = 1)
      (answer lab_alias_reply)))"
    by (simp add: lab_alias_reply_def)
  have k1: "map_of (domain_cache fresh_state) ?k = None"
    by (simp add: fresh_state_def)
  have k2: "from_text lab_env ?k = Some ''www.example.com.''"
    by (simp add: lab_env_def)
  have k3: "root_phase lab_env (now lab_env (net fresh_state)) ?k ''www.example.com.''
      PRIMARY_SERVERS 0 (trace_log fresh_state) (net fresh_state) =
      (Some ''192.5.6.30'', 1250, ?klog1, 2)"
    by (simp add: lab_simps)
  have k4: "tld_phase lab_env (now lab_env (net fresh_state)) ?k ''www.example.com.''
      ''192.5.6.30'' 1250 ?klog1 2 = (Inr (Some ''199.43.135.53''), 2500, ?klog2, 3)"
    by (simp add: lab_simps)
  have k5: "udp lab_env 3 (Some ''199.43.135.53'') ''www.example.com.'' =
      (Inr lab_alias_reply, 4)"
    by (simp add: lab_env_def lab_udp_def)
  have k6: "answer lab_alias_reply \<noteq> []" by (simp add: lab_alias_reply_def)
  have g1: "query_servers demo_world () [1] (2 + 1) [''199.43.135.53''] [] =
      Inr (Some (''199.43.135.53'', [12], 987), [], ())"
    by code_simp
  have g2: "parse demo_world [12] = Some final_answer" by code_simp
  have g3: "rr final_answer \<noteq> []" by (simp add: final_answer_def)
  have g4: "map (\<lambda>record. rname record @ '' -> '' @ show_nat (rtype record) @ '' -> '' @
                         rdata record) (rr final_answer) =
      [''example.com. -> 1 -> 93.184.216.34'']"
    by code_simp
  have t: "perf_counter lab_env 4 - perf_counter lab_env (net fresh_state) = 5000"
    "\<And>x. now lab_env x = ?T"
    by (simp_all add: lab_env_def fresh_state_def)
  from answer_is_returned_and_cached[OF h0, THEN conjunct1, THEN mp,
      OF conjI[OF h1 conjI[OF h2 conjI[OF h3 conjI[OF h4 conjI[OF h5 h6]]]]]]
  have c1: "\<exists>st'.
      step_by_step_lookup lab_env fresh_state ?h =
        Inr ((Some [''93.184.216.34''], 5000, ''MISS''), st') \<and>
      map_of (domain_cache st') ?h = Some [''93.184.216.34''] \<and>
      step_by_step_lookup lab_env st' ?h =
        Inr ((Some [''93.184.216.34''], 0, ''HIT''),
             st'\<lparr>trace_log := trace_log st' @
               [cache_hit_line ?T ?h [''93.184.216.34'']]\<rparr>)"
    unfolding t by blast
  from answer_is_returned_and_cached[OF k0, THEN conjunct2, THEN conjunct1, THEN mp,
      OF conjI[OF k1 conjI[OF k2 conjI[OF k3 conjI[OF k4 conjI[OF k5 conjI[OF k6 refl]]]]]]]
  have c2: "\<exists>st'.
      step_by_step_lookup lab_env fresh_state ?k = Inr ((Some [], 5000, ''MISS''), st') \<and>
      domain_cache st' = domain_cache fresh_state"
    unfolding t by blast
  from answer_is_returned_and_cached[OF h0, THEN conjunct2, THEN conjunct2, THEN mp,
      OF conjI[OF g1 conjI[OF g2 g3]], of 0]
  have c3: "lookup_loop (Suc 0) demo_world () [1] 2 [''199.43.135.53''] [] =
      Some (Inr (Some [12], [] @ [reply_entry (2 + 1) ''199.43.135.53'' 987 final_answer], ()))"
    and c4: "response (reply_entry (2 + 1) ''199.43.135.53'' 987 final_answer) =
      [''example.com. -> 1 -> 93.184.216.34'']"
    unfolding g4 by blast+
  from h5 h0 c1 k5 k0 c2 c3 c4 show ?thesis by (intro conjI)
qed

text \<open>
  The claim fails in both programs. In \<^verbatim>\<open>step_by_step_lookup\<close> (with a library in
  which \<^verbatim>\<open>items\<close> is a list) the authoritative server answers the query for
  \<open>www.example.com.\<close> with one alias record: the answer is not empty, but the lookup
  returns an empty list and stores nothing, and a second lookup of the same name is a
  miss again and goes through the three phases once more. With a library in which
  \<^verbatim>\<open>items\<close> is a dictionary, not even the name whose answer is an address record is
  resolved: the subscript raises at the reply of the root server, the remaining root
  servers time out, and the lookup returns \<^verbatim>\<open>None\<close> and stores nothing.
  \<^verbatim>\<open>hierarchical_lookup\<close> keeps nothing between calls: the lookup in the small network
  reaches a reply with an answer record and leaves the network as it found it, so that a
  second lookup is the same run again, with its timeout and its three exchanges and no
  entry for a cache.
\<close>

theorem answer_without_address_counterexample:
  "udp lab_env 3 (Some ''199.43.135.53'') ''www.example.com.'' = (Inr lab_alias_reply, 4) \<and>
   answer lab_alias_reply \<noteq> [] \<and>
   step_by_step_lookup lab_env fresh_state ''www.example.com'' =
     Inr ((Some [], 5000, ''MISS''), after_alias) \<and>
   domain_cache after_alias = [] \<and>
   step_by_step_lookup lab_env after_alias ''www.example.com'' =
     Inr ((Some [], 5000, ''MISS''),
          after_alias\<lparr>trace_log := trace_log after_alias @
            [fail_line ''2025-10-20 10:00:00'' ''www.example.com'' ''198.41.0.4'' ''Root''
               ''The DNS operation timed out.'',
             reply_line ''2025-10-20 10:00:00'' ''www.example.com'' ''199.9.14.201'' ''Root''
               ''Referral'' 1250,
             reply_line ''2025-10-20 10:00:00'' ''www.example.com'' ''192.5.6.30'' ''TLD''
               ''Referral'' 1250,
             reply_line ''2025-10-20 10:00:00'' ''www.example.com'' ''199.43.135.53''
               ''Authoritative'' ''[]'' 1250,
             total_line ''2025-10-20 10:00:00'' ''www.example.com'' 5000 ''No Response''],
           net := 8\<rparr>) \<and>
   hierarchical_lookup 3 demo_world () [1] =
     Some (Inr (Some [12],
       [timeout_entry 1 ''198.41.0.4'',
        reply_entry 1 ''199.9.14.201'' 1250 root_referral,
        reply_entry 2 ''192.5.6.30'' 2034 tld_referral,
        reply_entry 3 ''199.43.135.53'' 987 final_answer], ''example.com.'', ())) \<and>
   rr final_answer \<noteq> [] \<and>
   step_by_step_lookup lab_env2 fresh_state ''example.com'' =
     Inr ((None, 1250, ''MISS''),
          fresh_state\<lparr>trace_log :=
            [fail_line ''2025-10-20 10:00:00'' ''example.com'' ''198.41.0.4'' ''Root''
               ''The DNS operation timed out.'',
             reply_line ''2025-10-20 10:00:00'' ''example.com'' ''199.9.14.201'' ''Root''
               ''Referral'' 1250,
             fail_line ''2025-10-20 10:00:00'' ''example.com'' ''199.9.14.201'' ''Root'' ''0'',
             fail_line ''2025-10-20 10:00:00'' ''example.com'' ''192.33.4.12'' ''Root''
               ''The DNS operation timed out.''],
           net := 3\<rparr>)"
proof (intro conjI)
  show "udp lab_env 3 (Some ''199.43.135.53'') ''www.example.com.'' = (Inr lab_alias_reply, 4)"
    by (simp add: lab_env_def lab_udp_def)
  show "answer lab_alias_reply \<noteq> []"
    by (simp add: lab_alias_reply_def)
  show "step_by_step_lookup lab_env fresh_state ''www.example.com'' =
     Inr ((Some [], 5000, ''MISS''), after_alias)"
    by (simp add: lab_simps after_alias_def)
  show "domain_cache after_alias = []"
    by (simp add: after_alias_def)
  show "step_by_step_lookup lab_env after_alias ''www.example.com'' =
     Inr ((Some [], 5000, ''MISS''),
          after_alias\<lparr>trace_log := trace_log after_alias @
            [fail_line ''2025-10-20 10:00:00'' ''www.example.com'' ''198.41.0.4'' ''Root''
               ''The DNS operation timed out.'',
             reply_line ''2025-10-20 10:00:00'' ''www.example.com'' ''199.9.14.201'' ''Root''
               ''Referral'' 1250,
             reply_line ''2025-10-20 10:00:00'' ''www.example.com'' ''192.5.6.30'' ''TLD''
               ''Referral'' 1250,
             reply_line ''2025-10-20 10:00:00'' ''www.example.com'' ''199.43.135.53''
               ''Authoritative'' ''[]'' 1250,
             total_line ''2025-10-20 10:00:00'' ''www.example.com'' 5000 ''No Response''],
           net := 8\<rparr>)"
    by (simp add: lab_simps after_alias_def)
  show "hierarchical_lookup 3 demo_world () [1] =
     Some (Inr (Some [12],
       [timeout_entry 1 ''198.41.0.4'',
        reply_entry 1 ''199.9.14.201'' 1250 root_referral,
        reply_entry 2 ''192.5.6.30'' 2034 tld_referral,
        reply_entry 3 ''199.43.135.53'' 987 final_answer], ''example.com.'', ()))"
    by (rule demo_run)
  show "rr final_answer \<noteq> []"
    by (simp add: final_answer_def)
  show "step_by_step_lookup lab_env2 fresh_state ''example.com'' =
     Inr ((None, 1250, ''MISS''),
          fresh_state\<lparr>trace_log :=
            [fail_line ''2025-10-20 10:00:00'' ''example.com'' ''198.41.0.4'' ''Root''
               ''The DNS operation timed out.'',
             reply_line ''2025-10-20 10:00:00'' ''example.com'' ''199.9.14.201'' ''Root''
               ''Referral'' 1250,
             fail_line ''2025-10-20 10:00:00'' ''example.com'' ''199.9.14.201'' ''Root'' ''0'',
             fail_line ''2025-10-20 10:00:00'' ''example.com'' ''192.33.4.12'' ''Root''
               ''The DNS operation timed out.''],
           net := 3\<rparr>)"
    by (simp add: lab_simps lab_env2_def items_as_dict_def)
qed

end
